theory Spec2Isabelle
  imports Complex_Main "HOL-Library.Word" "HOL-Library.AList"
begin

section \<open>Types, values and memory\<close>

text \<open>
  The package reads struct instances through \<^verbatim>\<open>reflect\<close> and \<^verbatim>\<open>unsafe\<close>. The part of
  the Go runtime it relies on is modelled here: the kinds of \<^verbatim>\<open>reflect.Kind\<close>, types as
  \<^verbatim>\<open>reflect.Type\<close> describes them, values as they lie in memory, and \<^verbatim>\<open>reflect.Value\<close>.
  A \<^verbatim>\<open>uintptr\<close> is a 64-bit word; address 0 is the nil pointer.
\<close>

type_synonym uintptr = "64 word"

datatype kind =
    Invalid | Bool | IntK | Int8 | Int16 | Int32 | Int64
  | Uint | Uint8 | Uint16 | Uint32 | Uint64 | Uintptr
  | Float32 | Float64 | Complex64 | Complex128
  | Array | Chan | Func | Interface | Map | Ptr | Slice | String | Struct | UnsafePointer

text \<open>
  A struct type is referred to by its name (what \<^verbatim>\<open>Type.String()\<close> prints), so that a
  type may mention itself behind a pointer; its fields are found in the declarations.
  \<open>TInterface\<close> is the empty interface.
\<close>

datatype rtype =
    TBool | TNum kind | TString | TComplex kind | TChan | TFunc | TInterface | TUnsafePointer
  | PtrTo rtype | SliceOf rtype | ArrayOf nat rtype | MapOf rtype rtype | StructType string

definition isNumeric :: "kind \<Rightarrow> bool" where
  "isNumeric k = (k \<in> set [Float32, Float64, IntK, Int8, Int16, Int32, Int64,
                              Uint, Uint8, Uint16, Uint32, Uint64, Uintptr])"

fun Kind :: "rtype \<Rightarrow> kind" where
  "Kind TBool = Bool"
| "Kind (TNum k) = (if isNumeric k then k else Invalid)"
| "Kind TString = String"
| "Kind (TComplex k) = (if k = Complex64 then Complex64 else Complex128)"
| "Kind TChan = Chan"
| "Kind TFunc = Func"
| "Kind TInterface = Interface"
| "Kind TUnsafePointer = UnsafePointer"
| "Kind (PtrTo t) = Ptr"
| "Kind (SliceOf t) = Slice"
| "Kind (ArrayOf n t) = Array"
| "Kind (MapOf k v) = Map"
| "Kind (StructType n) = Struct"

fun kindName :: "kind \<Rightarrow> string" where
  "kindName Invalid = ''invalid''" | "kindName Bool = ''bool''" | "kindName IntK = ''int''"
| "kindName Int8 = ''int8''" | "kindName Int16 = ''int16''" | "kindName Int32 = ''int32''"
| "kindName Int64 = ''int64''" | "kindName Uint = ''uint''" | "kindName Uint8 = ''uint8''"
| "kindName Uint16 = ''uint16''" | "kindName Uint32 = ''uint32''" | "kindName Uint64 = ''uint64''"
| "kindName Uintptr = ''uintptr''" | "kindName Float32 = ''float32''"
| "kindName Float64 = ''float64''" | "kindName Complex64 = ''complex64''"
| "kindName Complex128 = ''complex128''" | "kindName Array = ''array''" | "kindName Chan = ''chan''"
| "kindName Func = ''func''" | "kindName Interface = ''interface''" | "kindName Map = ''map''"
| "kindName Ptr = ''ptr''" | "kindName Slice = ''slice''" | "kindName String = ''string''"
| "kindName Struct = ''struct''" | "kindName UnsafePointer = ''unsafe.Pointer''"

fun digits :: "nat \<Rightarrow> nat \<Rightarrow> string" where
  "digits 0 n = ''''"
| "digits (Suc f) n =
     (if n < 10 then [char_of (48 + n)] else digits f (n div 10) @ [char_of (48 + n mod 10)])"

definition decimal :: "nat \<Rightarrow> string" where
  "decimal n = digits (Suc n) n"

fun TypeString :: "rtype \<Rightarrow> string" where
  "TypeString TBool = ''bool''"
| "TypeString (TNum k) = kindName (Kind (TNum k))"
| "TypeString TString = ''string''"
| "TypeString (TComplex k) = kindName (Kind (TComplex k))"
| "TypeString TChan = ''chan''"
| "TypeString TFunc = ''func()''"
| "TypeString TInterface = ''interface {}''"
| "TypeString TUnsafePointer = ''unsafe.Pointer''"
| "TypeString (PtrTo t) = ''*'' @ TypeString t"
| "TypeString (SliceOf t) = ''[]'' @ TypeString t"
| "TypeString (ArrayOf n t) = ''['' @ decimal n @ '']'' @ TypeString t"
| "TypeString (MapOf k v) = ''map['' @ TypeString k @ '']'' @ TypeString v"
| "TypeString (StructType n) = n"

text \<open>
  Values. A number of any kind is kept as the real number it denotes; infinities and NaN
  are not values of the model. A pointer is an address. Slices, maps and interfaces may
  be nil (\<open>None\<close>). The elements of a slice, array or map are held in the container's
  value.
\<close>

datatype val =
    VBool bool | VNum real | VString string | VPtr uintptr
  | VSlice "val list option" | VArray "val list" | VMap "(val \<times> val) list option"
  | VStruct "val list" | VIface "(rtype \<times> val) option" | VOpaque bool

text \<open>
  Conversions between numbers. \<open>truncR\<close> drops the fraction, as the conversion of a
  float to an integer does. \<open>roundBits p i\<close> rounds the integer \<open>i\<close> to \<open>p\<close>
  significant bits, ties to even: the conversion of an integer of up to 64 bits to
  \<^verbatim>\<open>float64\<close> (\<open>p = 53\<close>) or \<^verbatim>\<open>float32\<close> (\<open>p = 24\<close>). \<open>widen\<close> is the conversion
  \<^verbatim>\<open>float64(x)\<close> of a number of the kind \<open>k\<close>.
\<close>

definition truncR :: "real \<Rightarrow> int" where
  "truncR r = (if 0 \<le> r then \<lfloor>r\<rfloor> else \<lceil>r\<rceil>)"

definition isFloat :: "kind \<Rightarrow> bool" where
  "isFloat k = (k = Float32 \<or> k = Float64)"

definition roundBits :: "nat \<Rightarrow> int \<Rightarrow> int" where
  "roundBits p i =
     (let a = \<bar>i\<bar>;
          e = length (takeWhile (\<lambda>e. 2 ^ (p + e) \<le> a) [0..<64])
      in if e = 0 then i
         else
           let q = a div 2 ^ e; r = a mod 2 ^ e; half = 2 ^ (e - 1);
               m = (if half < r \<or> (r = half \<and> odd q) then q + 1 else q) * 2 ^ e
           in if i < 0 then - m else m)"

definition widen :: "kind \<Rightarrow> real \<Rightarrow> real" where
  "widen k r = (if isFloat k then r else real_of_int (roundBits 53 (truncR r)))"

text \<open>An \<^verbatim>\<open>interface{}\<close>: nil, or a dynamic type with its value.\<close>

type_synonym iface = "(rtype \<times> val) option"

abbreviation float64 :: "real \<Rightarrow> iface" where
  "float64 r \<equiv> Some (TNum Float64, VNum r)"

text \<open>
  Memory holds one value at the address of every variable and field that is not itself a
  struct; the fields of a struct at address \<open>a\<close> lie at \<open>a + Offset\<close>. An address
  that holds nothing cannot be read: the read faults.
\<close>

type_synonym heap = "uintptr \<Rightarrow> val option"

datatype panic =
    SegFault
  | ValueError string kind
  | IndexOutOfRange
  | BadMemory

text \<open>A computation that may panic: \<open>Inl\<close> the panic, \<open>Inr\<close> the result.\<close>

definition bindP :: "panic + 'a \<Rightarrow> ('a \<Rightarrow> panic + 'b) \<Rightarrow> panic + 'b" where
  "bindP m f = (case m of Inl p \<Rightarrow> Inl p | Inr x \<Rightarrow> f x)"

definition load :: "heap \<Rightarrow> uintptr \<Rightarrow> panic + val" where
  "load h a = (case h a of None \<Rightarrow> Inl SegFault | Some v \<Rightarrow> Inr v)"

subsection \<open>reflect.Value\<close>

text \<open>
  A \<^verbatim>\<open>reflect.Value\<close> is the zero Value, or a type with either the address where the
  value lies (the Value is then addressable) or the value itself.
\<close>

datatype loc = At uintptr | Imm val

datatype Value = Zero | RV rtype loc

fun ValueOf :: "iface \<Rightarrow> Value" where
  "ValueOf None = Zero"
| "ValueOf (Some (t, v)) = RV t (Imm v)"

fun VKind :: "Value \<Rightarrow> kind" where
  "VKind Zero = Invalid"
| "VKind (RV t l) = Kind t"

fun IsValid :: "Value \<Rightarrow> bool" where
  "IsValid Zero = False"
| "IsValid (RV t l) = True"

fun CanAddr :: "Value \<Rightarrow> bool" where
  "CanAddr (RV t (At a)) = True"
| "CanAddr v = False"

fun UnsafeAddr :: "Value \<Rightarrow> panic + uintptr" where
  "UnsafeAddr (RV t (At a)) = Inr a"
| "UnsafeAddr v = Inl (ValueError ''reflect.Value.UnsafeAddr'' (VKind v))"

fun contents :: "heap \<Rightarrow> loc \<Rightarrow> panic + val" where
  "contents h (At a) = load h a"
| "contents h (Imm v) = Inr v"

definition NewAt :: "rtype \<Rightarrow> uintptr \<Rightarrow> Value" where
  "NewAt t a = RV (PtrTo t) (Imm (VPtr a))"

text \<open>
  \<^verbatim>\<open>Value.Elem\<close>: the Value a pointer points to or an interface holds; the zero Value for
  nil; a panic for every other kind, the zero Value included.
\<close>

fun Elem :: "heap \<Rightarrow> Value \<Rightarrow> panic + Value" where
  "Elem h (RV (PtrTo t) l) =
     bindP (contents h l) (\<lambda>v. case v of
        VPtr p \<Rightarrow> Inr (if p = 0 then Zero else RV t (At p))
      | _ \<Rightarrow> Inl BadMemory)"
| "Elem h (RV TInterface l) =
     bindP (contents h l) (\<lambda>v. case v of
        VIface None \<Rightarrow> Inr Zero
      | VIface (Some (t, x)) \<Rightarrow> Inr (RV t (Imm x))
      | _ \<Rightarrow> Inl BadMemory)"
| "Elem h v = Inl (ValueError ''reflect.Value.Elem'' (VKind v))"

text \<open>\<^verbatim>\<open>Value.Pointer\<close>, for the pointer kind, the only one it is called on here.\<close>

fun Pointer :: "heap \<Rightarrow> Value \<Rightarrow> panic + uintptr" where
  "Pointer h (RV (PtrTo t) l) =
     bindP (contents h l) (\<lambda>v. case v of VPtr p \<Rightarrow> Inr p | _ \<Rightarrow> Inl BadMemory)"
| "Pointer h v = Inl (ValueError ''reflect.Value.Pointer'' (VKind v))"

text \<open>\<^verbatim>\<open>Value.Interface\<close> panics on the zero Value; an interface Value gives what it holds.\<close>

fun Interface_of :: "heap \<Rightarrow> Value \<Rightarrow> panic + iface" where
  "Interface_of h Zero = Inl (ValueError ''reflect.Value.Interface'' Invalid)"
| "Interface_of h (RV TInterface l) =
     bindP (contents h l) (\<lambda>v. case v of VIface i \<Rightarrow> Inr i | _ \<Rightarrow> Inl BadMemory)"
| "Interface_of h (RV t l) = bindP (contents h l) (\<lambda>v. Inr (Some (t, v)))"

fun Bool_of :: "heap \<Rightarrow> Value \<Rightarrow> panic + bool" where
  "Bool_of h (RV TBool l) =
     bindP (contents h l) (\<lambda>v. case v of VBool b \<Rightarrow> Inr b | _ \<Rightarrow> Inl BadMemory)"
| "Bool_of h v = Inl (ValueError ''reflect.Value.Bool'' (VKind v))"

text \<open>\<^verbatim>\<open>Value.String\<close> does not panic: for another kind it prints the type.\<close>

fun String_of :: "heap \<Rightarrow> Value \<Rightarrow> panic + string" where
  "String_of h Zero = Inr ''<invalid Value>''"
| "String_of h (RV TString l) =
     bindP (contents h l) (\<lambda>v. case v of VString s \<Rightarrow> Inr s | _ \<Rightarrow> Inl BadMemory)"
| "String_of h (RV t l) = Inr (''<'' @ TypeString t @ '' Value>'')"

text \<open>\<^verbatim>\<open>Value.IsNil\<close> panics unless the kind can be nil.\<close>

definition IsNil :: "heap \<Rightarrow> Value \<Rightarrow> panic + bool" where
  "IsNil h v =
     (if VKind v \<in> set [Chan, Func, Map, Ptr, UnsafePointer, Interface, Slice] then
        (case v of
           Zero \<Rightarrow> Inl (ValueError ''reflect.Value.IsNil'' Invalid)
         | RV t l \<Rightarrow> bindP (contents h l) (\<lambda>x. case x of
               VPtr p \<Rightarrow> Inr (p = 0)
             | VSlice s \<Rightarrow> Inr (s = None)
             | VMap m \<Rightarrow> Inr (m = None)
             | VIface i \<Rightarrow> Inr (i = None)
             | VOpaque b \<Rightarrow> Inr b
             | _ \<Rightarrow> Inl BadMemory))
      else Inl (ValueError ''reflect.Value.IsNil'' (VKind v)))"

text \<open>No Value here is obtained through an unexported field, so all can be interfaced.\<close>

fun CanInterface :: "Value \<Rightarrow> panic + bool" where
  "CanInterface Zero = Inl (ValueError ''reflect.Value.CanInterface'' Invalid)"
| "CanInterface (RV t l) = Inr True"

text \<open>
  \<^verbatim>\<open>Value.Len\<close> and \<^verbatim>\<open>Value.Index\<close> of a slice, an array or a string. The element
  is given by value: in Go the element of a slice is addressable, and reading a number
  at its address or from the Value gives the same number.
\<close>

definition Len :: "heap \<Rightarrow> Value \<Rightarrow> panic + int" where
  "Len h v =
     (case v of
        Zero \<Rightarrow> Inl (ValueError ''reflect.Value.Len'' Invalid)
      | RV t l \<Rightarrow> bindP (contents h l) (\<lambda>x. case x of
            VSlice None \<Rightarrow> Inr 0
          | VSlice (Some xs) \<Rightarrow> Inr (int (length xs))
          | VArray xs \<Rightarrow> Inr (int (length xs))
          | VString s \<Rightarrow> Inr (int (length s))
          | VMap None \<Rightarrow> Inr 0
          | VMap (Some m) \<Rightarrow> Inr (int (length m))
          | _ \<Rightarrow> Inl (ValueError ''reflect.Value.Len'' (Kind t))))"

definition elemType :: "rtype \<Rightarrow> rtype" where
  "elemType t = (case t of SliceOf e \<Rightarrow> e | ArrayOf n e \<Rightarrow> e | PtrTo e \<Rightarrow> e
                   | MapOf k e \<Rightarrow> e | TString \<Rightarrow> TNum Uint8 | _ \<Rightarrow> t)"

definition Index :: "heap \<Rightarrow> Value \<Rightarrow> int \<Rightarrow> panic + Value" where
  "Index h v i =
     (case v of
        Zero \<Rightarrow> Inl (ValueError ''reflect.Value.Index'' Invalid)
      | RV t l \<Rightarrow> bindP (contents h l) (\<lambda>x.
          let pick = (\<lambda>xs. if i < 0 \<or> int (length xs) \<le> i then Inl IndexOutOfRange
                          else Inr (RV (elemType t) (Imm (xs ! nat i))))
          in case x of
               VSlice None \<Rightarrow> Inl IndexOutOfRange
             | VSlice (Some xs) \<Rightarrow> pick xs
             | VArray xs \<Rightarrow> pick xs
             | VString s \<Rightarrow> pick (map (\<lambda>c. VNum (real (of_char c))) s)
             | _ \<Rightarrow> Inl (ValueError ''reflect.Value.Index'' (Kind t))))"

section \<open>The data model of the package\<close>

text \<open>
  \<^verbatim>\<open>reflect.StructField\<close>, with the parts the package reads. The tag is the list of its
  \<^verbatim>\<open>key:"value"\<close> pairs; \<^verbatim>\<open>Tag.Get\<close> gives the empty string for a key it does not have.
\<close>

record StructField =
  Name :: string
  Type :: rtype
  Tag :: "(string \<times> string) list"
  Offset :: uintptr

definition Tag_Get :: "(string \<times> string) list \<Rightarrow> string \<Rightarrow> string" where
  "Tag_Get tag key = (case map_of tag key of None \<Rightarrow> [] | Some v \<Rightarrow> v)"

text \<open>
  The declarations of the program's struct types: \<^verbatim>\<open>NumField\<close> and \<^verbatim>\<open>Field(i)\<close> of the
  type named \<open>n\<close> enumerate \<open>fieldsOf decls n\<close>.
\<close>

type_synonym decls = "(string \<times> StructField list) list"

definition fieldsOf :: "decls \<Rightarrow> string \<Rightarrow> StructField list" where
  "fieldsOf ds n = (case map_of ds n of None \<Rightarrow> [] | Some fs \<Rightarrow> fs)"

text \<open>
  A value getter is a closure over the field; it reads the memory of the moment it is
  called in. A \<^verbatim>\<open>*Struct\<close> is the key under which the descriptor lies in the registry: a
  descriptor is stored there as soon as it is made and never replaced, so the key
  identifies the instance. The maps of a descriptor are association lists, because
  \<^verbatim>\<open>copySubFields\<close> ranges over them; the model ranges in the order of insertion (Go
  fixes no order) and over the entries present when the loop starts.
\<close>

type_synonym getter = "heap \<Rightarrow> uintptr \<Rightarrow> panic + iface"

record Field = StructField +
  host :: string
  valueGetter :: "getter option"

record 'e Struct =
  name :: string
  fields' :: "(string \<times> Field) list"
  exprs :: "(string \<times> 'e) list"
  selectorList :: "string list"

record 'e VM =
  tagName :: string
  structJar :: "string \<rightharpoonup> 'e Struct"

record TagExpr =
  s :: string
  ptr :: uintptr

datatype error =
    CannotWarmUpNil
  | CannotRunNil
  | NotStructurePointer string
  | NotStructurePointerOrStructure string
  | DuplicateExpressionName string
  | SyntaxIncorrect string
  | ExprError string

definition New :: "string \<Rightarrow> 'e VM" where
  "New tagName' = \<lparr>tagName = tagName', structJar = Map.empty\<rparr>"

definition newStruct :: "'e Struct" where
  "newStruct = \<lparr>name = [], fields' = [], exprs = [], selectorList = []\<rparr>"

text \<open>Reading and writing through a \<^verbatim>\<open>*Struct\<close> the program holds.\<close>

definition deref :: "'e VM \<Rightarrow> string \<Rightarrow> 'e Struct" where
  "deref vm p = (case structJar vm p of None \<Rightarrow> newStruct | Some d \<Rightarrow> d)"

definition store :: "'e VM \<Rightarrow> string \<Rightarrow> 'e Struct \<Rightarrow> 'e VM" where
  "store vm p d = vm\<lparr>structJar := (structJar vm)(p \<mapsto> d)\<rparr>"

section \<open>Field accessors\<close>

definition getFloat64 :: "heap \<Rightarrow> kind \<Rightarrow> uintptr \<Rightarrow> panic + iface" where
  "getFloat64 h kind p =
     (if isNumeric kind then
        bindP (load h p) (\<lambda>v. case v of VNum r \<Rightarrow> Inr (float64 (widen kind r))
                                       | _ \<Rightarrow> Inl BadMemory)
      else Inr None)"

fun ElemN :: "heap \<Rightarrow> nat \<Rightarrow> Value \<Rightarrow> panic + Value" where
  "ElemN h 0 v = Inr v"
| "ElemN h (Suc n) v = bindP (Elem h v) (ElemN h n)"

definition newFrom :: "heap \<Rightarrow> Field \<Rightarrow> uintptr \<Rightarrow> nat \<Rightarrow> panic + Value" where
  "newFrom h f p ptrDeep =
     bindP (Elem h (NewAt (Type f) (p + Offset f))) (ElemN h ptrDeep)"

definition setFloatGetter :: "kind \<Rightarrow> nat \<Rightarrow> Field \<Rightarrow> Field" where
  "setFloatGetter kind ptrDeep f =
     (if ptrDeep = 0 then
        f\<lparr>valueGetter := Some (\<lambda>h p. getFloat64 h kind (p + Offset f))\<rparr>
      else
        f\<lparr>valueGetter := Some (\<lambda>h p.
            bindP (newFrom h f p ptrDeep) (\<lambda>v.
              if CanAddr v then bindP (UnsafeAddr v) (getFloat64 h kind)
              else Inr None))\<rparr>)"

definition setBoolGetter :: "nat \<Rightarrow> Field \<Rightarrow> Field" where
  "setBoolGetter ptrDeep f =
     (if ptrDeep = 0 then
        f\<lparr>valueGetter := Some (\<lambda>h p.
            bindP (load h (p + Offset f)) (\<lambda>v. case v of
                VBool b \<Rightarrow> Inr (Some (TBool, VBool b))
              | _ \<Rightarrow> Inl BadMemory))\<rparr>
      else
        f\<lparr>valueGetter := Some (\<lambda>h p.
            bindP (newFrom h f p ptrDeep) (\<lambda>v.
              if IsValid v then bindP (Bool_of h v) (\<lambda>b. Inr (Some (TBool, VBool b)))
              else Inr None))\<rparr>)"

definition setStringGetter :: "nat \<Rightarrow> Field \<Rightarrow> Field" where
  "setStringGetter ptrDeep f =
     (if ptrDeep = 0 then
        f\<lparr>valueGetter := Some (\<lambda>h p.
            bindP (load h (p + Offset f)) (\<lambda>v. case v of
                VString x \<Rightarrow> Inr (Some (TString, VString x))
              | _ \<Rightarrow> Inl BadMemory))\<rparr>
      else
        f\<lparr>valueGetter := Some (\<lambda>h p.
            bindP (newFrom h f p ptrDeep) (\<lambda>v.
              if IsValid v then bindP (String_of h v) (\<lambda>x. Inr (Some (TString, VString x)))
              else Inr None))\<rparr>)"

definition setLengthGetter :: "nat \<Rightarrow> Field \<Rightarrow> Field" where
  "setLengthGetter ptrDeep f =
     f\<lparr>valueGetter := Some (\<lambda>h p. bindP (newFrom h f p ptrDeep) (Interface_of h))\<rparr>"

text \<open>The getter of the \<^verbatim>\<open>default\<close> case of \<^verbatim>\<open>registerStructLocked\<close>.\<close>

definition setNilGetter :: "Field \<Rightarrow> Field" where
  "setNilGetter f = f\<lparr>valueGetter := Some (\<lambda>h p. Inr None)\<rparr>"

section \<open>Flattening a nested struct\<close>

text \<open>The body of the first loop of \<^verbatim>\<open>copySubFields\<close>: the copy of one field of \<open>sub\<close>.\<close>

definition copySubField :: "Field \<Rightarrow> nat \<Rightarrow> Field \<Rightarrow> Field" where
  "copySubField field ptrDeep v =
     (let f = \<lparr>Name = Name v, Type = Type v, Tag = Tag v, Offset = Offset v,
                host = host v, valueGetter = None\<rparr>
      in case valueGetter v of
           None \<Rightarrow> f
         | Some valueGetter' \<Rightarrow>
             if ptrDeep = 0 then
               f\<lparr>valueGetter := Some (\<lambda>h p. valueGetter' h (p + Offset field))\<rparr>
             else
               f\<lparr>valueGetter := Some (\<lambda>h p.
                   bindP (ElemN h ptrDeep (NewAt (Type field) (p + Offset field))) (\<lambda>newField.
                   bindP (Pointer h newField) (\<lambda>a. valueGetter' h a)))\<rparr>)"

text \<open>
  The two loops of \<^verbatim>\<open>copySubFields\<close>. Go ranges over a map in an order it does not fix;
  the model ranges in the order of insertion. When \<open>sub\<close> is the descriptor itself (a
  field of the type that is being registered), the first loop of the code ranges over the
  map it inserts into, and Go may or may not visit the new entries; the model visits the
  entries that are there when the loop starts.
\<close>

definition copySubFields :: "'e Struct \<Rightarrow> Field \<Rightarrow> 'e Struct \<Rightarrow> nat \<Rightarrow> 'e Struct" where
  "copySubFields d field sub ptrDeep =
     (let nameSpace = Name field;
          d1 = fold (\<lambda>(k, v) d.
                  d\<lparr>fields' := AList.update (nameSpace @ ''.'' @ k)
                                 (copySubField field ptrDeep v) (fields' d)\<rparr>)
                (fields' sub) d
      in fold (\<lambda>(k, v) d.
                  let selector = nameSpace @ ''.'' @ k
                  in d\<lparr>exprs := AList.update selector v (exprs d),
                       selectorList := selectorList d @ [selector]\<rparr>)
           (exprs sub) d1)"

section \<open>Parsing the annotation of a field\<close>

text \<open>
  A Go string is a sequence of bytes. \<^verbatim>\<open>strings.TrimSpace\<close> removes the leading and the
  trailing white space as Unicode defines it (\<^verbatim>\<open>unicode.IsSpace\<close>), reading the string as
  UTF-8. \<open>spaceRunes\<close> are the encodings of the white space characters: the six of
  ASCII, U+0085, U+00A0, U+1680, U+2000 to U+200A, U+2028, U+2029, U+202F, U+205F and
  U+3000. Each is a complete encoding, so the first (last) character of a string is
  white space exactly when the string starts (ends) with one of these byte sequences;
  a byte that starts no valid encoding decodes to U+FFFD, which is not white space.
  \<open>isSpace\<close> is the white space of ASCII.
\<close>

definition isSpace :: "char \<Rightarrow> bool" where
  "isSpace c = (c \<in> set [CHR '' '', CHR 0x09, CHR 0x0A, CHR 0x0B, CHR 0x0C, CHR 0x0D])"

definition spaceRunes :: "string list" where
  "spaceRunes =
     [[CHR 0x09], [CHR 0x0A], [CHR 0x0B], [CHR 0x0C], [CHR 0x0D], [CHR 0x20],
      [CHR 0xC2, CHR 0x85], [CHR 0xC2, CHR 0xA0], [CHR 0xE1, CHR 0x9A, CHR 0x80],
      [CHR 0xE2, CHR 0x80, CHR 0x80], [CHR 0xE2, CHR 0x80, CHR 0x81],
      [CHR 0xE2, CHR 0x80, CHR 0x82], [CHR 0xE2, CHR 0x80, CHR 0x83],
      [CHR 0xE2, CHR 0x80, CHR 0x84], [CHR 0xE2, CHR 0x80, CHR 0x85],
      [CHR 0xE2, CHR 0x80, CHR 0x86], [CHR 0xE2, CHR 0x80, CHR 0x87],
      [CHR 0xE2, CHR 0x80, CHR 0x88], [CHR 0xE2, CHR 0x80, CHR 0x89],
      [CHR 0xE2, CHR 0x80, CHR 0x8A], [CHR 0xE2, CHR 0x80, CHR 0xA8],
      [CHR 0xE2, CHR 0x80, CHR 0xA9], [CHR 0xE2, CHR 0x80, CHR 0xAF],
      [CHR 0xE2, CHR 0x81, CHR 0x9F], [CHR 0xE3, CHR 0x80, CHR 0x80]]"

text \<open>The number of bytes of the white space character that \<open>x\<close> starts with, or 0.\<close>

definition spaceWidth :: "string list \<Rightarrow> string \<Rightarrow> nat" where
  "spaceWidth runes x =
     (case find (\<lambda>r. take (length r) x = r) runes of None \<Rightarrow> 0 | Some r \<Rightarrow> length r)"

function trimLeftFunc :: "string list \<Rightarrow> string \<Rightarrow> string" where
  "trimLeftFunc runes x =
     (if spaceWidth runes x = 0 \<or> x = [] then x
      else trimLeftFunc runes (drop (spaceWidth runes x) x))"
  by pat_completeness auto
termination
  by (relation "measure (\<lambda>(runes, x). length x)") auto

declare trimLeftFunc.simps [simp del]

definition TrimSpace :: "string \<Rightarrow> string" where
  "TrimSpace x = rev (trimLeftFunc (map rev spaceRunes) (rev (trimLeftFunc spaceRunes x)))"

fun indexFrom :: "nat \<Rightarrow> string \<Rightarrow> string \<Rightarrow> int" where
  "indexFrom i sep [] = (if sep = [] then int i else - 1)"
| "indexFrom i sep (c # cs) =
     (if take (length sep) (c # cs) = sep then int i else indexFrom (Suc i) sep cs)"

definition strIndex :: "string \<Rightarrow> string \<Rightarrow> int" where
  "strIndex x sep = indexFrom 0 sep x"

text \<open>
  Modelled from the spec: \<^verbatim>\<open>trimLeftSpace\<close> and \<^verbatim>\<open>readPairedSymbol\<close> are helpers of the
  package that are not in \<^verbatim>\<open>tagexpr.go\<close>. The first drops the leading white space of the
  text. The second extracts one balanced \<^verbatim>\<open>{...}\<close> group from the front of the remaining
  text: nil when the text does not start with the left symbol or the group is not
  closed, otherwise the inside of the group, the text being advanced past it.
\<close>

definition trimLeftSpace :: "string \<Rightarrow> string" where
  "trimLeftSpace x = dropWhile isSpace x"

fun scanPaired :: "char \<Rightarrow> char \<Rightarrow> nat \<Rightarrow> string \<Rightarrow> string \<Rightarrow> (string \<times> string) option" where
  "scanPaired left right level acc [] = None"
| "scanPaired left right level acc (c # cs) =
     (if c = right then
        (case level of
           0 \<Rightarrow> Some (rev acc, cs)
         | Suc l \<Rightarrow> scanPaired left right l (c # acc) cs)
      else if c = left then scanPaired left right (Suc level) (c # acc) cs
      else scanPaired left right level (c # acc) cs)"

definition readPairedSymbol :: "string \<Rightarrow> char \<Rightarrow> char \<Rightarrow> (string \<times> string) option" where
  "readPairedSymbol p left right =
     (case p of
        [] \<Rightarrow> None
      | c # cs \<Rightarrow> if c = left then scanPaired left right 0 [] cs else None)"

lemma scanPaired_shorter:
  "scanPaired left right level acc cs = Some (sub, rest) \<Longrightarrow> length rest < length cs"
proof (induction cs arbitrary: level acc)
  case Nil
  then show ?case by simp
next
  case (Cons c cs)
  show ?case
  proof (cases "c = right \<and> level = 0")
    case True
    with Cons.prems show ?thesis by simp
  next
    case False
    with Cons.prems obtain level' acc' where
      "scanPaired left right level' acc' cs = Some (sub, rest)"
      by (auto split: if_splits nat.splits)
    from Cons.IH [OF this] show ?thesis by simp
  qed
qed

lemma readPairedSymbol_shorter:
  "readPairedSymbol p left right = Some (sub, rest) \<Longrightarrow> length rest < length p"
  by (auto simp: readPairedSymbol_def split: list.splits if_splits
           dest!: scanPaired_shorter)

lemma trimLeftSpace_length: "length (trimLeftSpace x) \<le> length x"
  by (simp add: trimLeftSpace_def length_dropWhile_le)

text \<open>
  The loop of \<^verbatim>\<open>parseExprs\<close> for an annotation that starts with a brace. \<open>parseExpr\<close>
  is the compiler of the expression language, which the package takes from another
  file; \<open>d\<close> is the descriptor \<^verbatim>\<open>f.host\<close>, returned as the loop leaves it, with the
  error if there is one.
\<close>

function parseExprsLoop ::
  "(string \<Rightarrow> error + 'e) \<Rightarrow> string \<Rightarrow> Field \<Rightarrow> 'e Struct \<Rightarrow> string \<Rightarrow> 'e Struct \<times> error option"
where
  "parseExprsLoop parseExpr raw f d tag =
     (case readPairedSymbol tag CHR ''{'' CHR ''}'' of
        None \<Rightarrow> (d, Some (SyntaxIncorrect raw))
      | Some (subtag, tag1) \<Rightarrow>
          let idx = strIndex subtag '':'' in
          if idx > 0 then
            let selector = TrimSpace (take (nat idx) subtag) in
            if selector = [] then parseExprsLoop parseExpr raw f d tag1
            else
              let selector = (if selector = ''@'' then Name f @ selector
                              else Name f @ ''@'' @ selector)
              in if map_of (exprs d) selector \<noteq> None
                 then (d, Some (DuplicateExpressionName selector))
                 else
                   let exprStr = TrimSpace (drop (nat idx + 1) subtag) in
                   if exprStr \<noteq> [] then
                     (case parseExpr exprStr of
                        Inr expr \<Rightarrow>
                          let d1 = d\<lparr>exprs := AList.update selector expr (exprs d),
                                     selectorList := selectorList d @ [selector]\<rparr>;
                              tag2 = trimLeftSpace tag1
                          in if tag2 = [] then (d1, None)
                             else parseExprsLoop parseExpr raw f d1 tag2
                      | Inl err \<Rightarrow> (d, Some err))
                   else (d, Some (SyntaxIncorrect raw))
          else (d, Some (SyntaxIncorrect raw)))"
  by pat_completeness auto

termination
proof (relation "measure (\<lambda>(parseExpr, raw, f, d, tag). length tag)", goal_cases)
  case 1
  show ?case by simp
next
  case (2 parseExpr raw f d tag x2 subtag tag1)
  then show ?case by (auto dest: readPairedSymbol_shorter)
next
  case (3 parseExpr raw f d tag x2 subtag tag1)
  then have "length tag1 < length tag" by (auto dest: readPairedSymbol_shorter)
  moreover have "length (trimLeftSpace tag1) \<le> length tag1" by (rule trimLeftSpace_length)
  ultimately show ?case using 3 by simp
qed

declare parseExprsLoop.simps [simp del]

definition parseExprs ::
  "(string \<Rightarrow> error + 'e) \<Rightarrow> Field \<Rightarrow> 'e Struct \<Rightarrow> string \<Rightarrow> 'e Struct \<times> error option"
where
  "parseExprs parseExpr f d tag0 =
     (let raw = tag0; tag = TrimSpace tag0 in
      if tag = [] then (d, None)
      else if hd tag \<noteq> CHR ''{'' then
        (case parseExpr tag of
           Inl err \<Rightarrow> (d, Some err)
         | Inr expr \<Rightarrow>
             let selector = Name f @ ''@''
             in (d\<lparr>exprs := AList.update selector expr (exprs d),
                   selectorList := selectorList d @ [selector]\<rparr>, None))
      else parseExprsLoop parseExpr raw f d tag)"

section \<open>The registry\<close>

definition newField ::
  "string \<Rightarrow> (string \<Rightarrow> error + 'e) \<Rightarrow> string \<Rightarrow> 'e Struct \<Rightarrow> StructField
     \<Rightarrow> 'e Struct \<times> (error + Field)"
where
  "newField tagName' parseExpr sp d structField =
     (let f = \<lparr>Name = Name structField, Type = Type structField, Tag = Tag structField,
                Offset = Offset structField, host = sp, valueGetter = None\<rparr>
      in case parseExprs parseExpr f d (Tag_Get (Tag structField) tagName') of
           (d1, Some err) \<Rightarrow> (d1, Inl err)
         | (d1, None) \<Rightarrow> (d1\<lparr>fields' := AList.update (Name f) f (fields' d1)\<rparr>, Inr f))"

fun getStructType :: "rtype \<Rightarrow> rtype \<Rightarrow> error + rtype" where
  "getStructType t (PtrTo structType) = getStructType t structType"
| "getStructType t structType =
     (if Kind structType \<noteq> Struct then Inl (NotStructurePointerOrStructure (TypeString t))
      else Inr structType)"

text \<open>The loop \<^verbatim>\<open>for t.Kind() == reflect.Ptr { t = t.Elem(); ptrDeep++ }\<close>.\<close>

fun derefType :: "rtype \<Rightarrow> nat \<Rightarrow> rtype \<times> nat" where
  "derefType (PtrTo t) ptrDeep = derefType t (Suc ptrDeep)"
| "derefType t ptrDeep = (t, ptrDeep)"

text \<open>
  The assignment to \<^verbatim>\<open>field.valueGetter\<close> in the cases of the switch other than the
  struct case: \<^verbatim>\<open>field\<close> is the pointer that \<^verbatim>\<open>newField\<close> stored under the field's name.
\<close>

definition setGetter :: "kind \<Rightarrow> nat \<Rightarrow> Field \<Rightarrow> Field" where
  "setGetter k ptrDeep field =
     (if isNumeric k then setFloatGetter k ptrDeep field
      else if k = String then setStringGetter ptrDeep field
      else if k = Bool then setBoolGetter ptrDeep field
      else if k = Map \<or> k = Array \<or> k = Slice then setLengthGetter ptrDeep field
      else setNilGetter field)"

text \<open>
  \<^verbatim>\<open>registerStructLocked\<close> calls itself for a field of struct kind. \<open>fuel\<close> bounds the
  depth of these calls: \<open>None\<close> is a call chain deeper than \<open>fuel\<close>. The registry
  is returned with the result, also when the result is an error.
\<close>

fun registerStructLocked ::
  "(string \<Rightarrow> error + 'e) \<Rightarrow> decls \<Rightarrow> nat \<Rightarrow> 'e VM \<Rightarrow> rtype \<Rightarrow> ('e VM \<times> (error + string)) option"
and registerFields ::
  "(string \<Rightarrow> error + 'e) \<Rightarrow> decls \<Rightarrow> nat \<Rightarrow> 'e VM \<Rightarrow> string \<Rightarrow> StructField list
     \<Rightarrow> ('e VM \<times> error option) option"
where
  "registerStructLocked parseExpr ds fuel vm t =
     (case getStructType t t of
        Inl err \<Rightarrow> Some (vm, Inl err)
      | Inr structType \<Rightarrow>
          let structTypeName = TypeString structType in
          if structJar vm structTypeName \<noteq> None then Some (vm, Inr structTypeName)
          else
            (case fuel of
               0 \<Rightarrow> None
             | Suc fuel' \<Rightarrow>
                 (case registerFields parseExpr ds fuel' (store vm structTypeName newStruct)
                         structTypeName (fieldsOf ds structTypeName) of
                    None \<Rightarrow> None
                  | Some (vm1, Some err) \<Rightarrow> Some (vm1, Inl err)
                  | Some (vm1, None) \<Rightarrow> Some (vm1, Inr structTypeName))))"
| "registerFields parseExpr ds fuel vm sp [] = Some (vm, None)"
| "registerFields parseExpr ds fuel vm sp (structField # rest) =
     (case newField (tagName vm) parseExpr sp (deref vm sp) structField of
        (d1, Inl err) \<Rightarrow> Some (store vm sp d1, Some err)
      | (d1, Inr field) \<Rightarrow>
          let vm1 = store vm sp d1;
              (t, ptrDeep) = derefType (Type structField) 0
          in if Kind t = Struct then
               (case registerStructLocked parseExpr ds fuel vm1 (Type field) of
                  None \<Rightarrow> None
                | Some (vm2, Inl err) \<Rightarrow> Some (vm2, Some err)
                | Some (vm2, Inr sub) \<Rightarrow>
                    registerFields parseExpr ds fuel
                      (store vm2 sp (copySubFields (deref vm2 sp) field (deref vm2 sub) ptrDeep))
                      sp rest)
             else
               registerFields parseExpr ds fuel
                 (store vm1 sp (d1\<lparr>fields' :=
                     AList.update (Name field) (setGetter (Kind t) ptrDeep field) (fields' d1)\<rparr>))
                 sp rest)"

declare registerStructLocked.simps [simp del]

definition newTagExpr :: "string \<Rightarrow> uintptr \<Rightarrow> TagExpr" where
  "newTagExpr sp a = \<lparr>s = sp, ptr = a\<rparr>"

fun WarmUp ::
  "(string \<Rightarrow> error + 'e) \<Rightarrow> decls \<Rightarrow> nat \<Rightarrow> 'e VM \<Rightarrow> iface list \<Rightarrow> ('e VM \<times> error option) option"
where
  "WarmUp parseExpr ds fuel vm [] = Some (vm, None)"
| "WarmUp parseExpr ds fuel vm (v # vs) =
     (case v of
        None \<Rightarrow> Some (vm, Some CannotWarmUpNil)
      | Some (ty, x) \<Rightarrow>
          (case registerStructLocked parseExpr ds fuel vm ty of
             None \<Rightarrow> None
           | Some (vm1, Inl err) \<Rightarrow> Some (vm1, Some err)
           | Some (vm1, Inr sp) \<Rightarrow> WarmUp parseExpr ds fuel vm1 vs))"

text \<open>
  \<^verbatim>\<open>Run\<close>, as one caller runs it: the second look into the registry, under the write
  lock, sees what the first saw. The result is a panic, or the registry with the error
  or the handler.
\<close>

definition Run ::
  "(string \<Rightarrow> error + 'e) \<Rightarrow> decls \<Rightarrow> nat \<Rightarrow> heap \<Rightarrow> 'e VM \<Rightarrow> iface
     \<Rightarrow> (panic + 'e VM \<times> (error + TagExpr)) option"
where
  "Run parseExpr ds fuel h vm structPtr =
     (case structPtr of
        None \<Rightarrow> Some (Inr (vm, Inl CannotRunNil))
      | Some (ty, x) \<Rightarrow>
          let v = ValueOf structPtr in
          if VKind v \<noteq> Ptr then Some (Inr (vm, Inl (NotStructurePointer (TypeString ty))))
          else
            (case Elem h v of
               Inl p \<Rightarrow> Some (Inl p)
             | Inr Zero \<Rightarrow> Some (Inr (vm, Inl (NotStructurePointer (TypeString ty))))
             | Inr (RV t l) \<Rightarrow>
                 if Kind t \<noteq> Struct
                 then Some (Inr (vm, Inl (NotStructurePointer (TypeString ty))))
                 else
                   let tname = TypeString t;
                       r = (if structJar vm tname \<noteq> None then Some (vm, Inr tname)
                            else if structJar vm tname \<noteq> None then Some (vm, Inr tname)
                            else registerStructLocked parseExpr ds fuel vm t)
                   in case r of
                        None \<Rightarrow> None
                      | Some (vm1, Inl err) \<Rightarrow> Some (Inr (vm1, Inl err))
                      | Some (vm1, Inr sp) \<Rightarrow>
                          (case Pointer h v of
                             Inl p \<Rightarrow> Some (Inl p)
                           | Inr a \<Rightarrow> Some (Inr (vm1, Inr (newTagExpr sp a))))))"

section \<open>Evaluation\<close>

definition getFieldSelector :: "string \<Rightarrow> string" where
  "getFieldSelector selector =
     (let idx = strIndex selector ''@'' in
      if idx = - 1 then selector else take (nat idx) selector)"

text \<open>
  \<open>run\<close> is \<^verbatim>\<open>(*Expr).run\<close>, the evaluator of the expression language, from another
  file of the package. \<^verbatim>\<open>exprs[selector]\<close> of a selector that is not there is a nil
  \<^verbatim>\<open>*Expr\<close>, and running it faults.
\<close>

definition Eval ::
  "('e \<Rightarrow> string \<Rightarrow> TagExpr \<Rightarrow> panic + iface) \<Rightarrow> 'e VM \<Rightarrow> TagExpr \<Rightarrow> string \<Rightarrow> panic + iface"
where
  "Eval run vm t selector =
     (case map_of (exprs (deref vm (s t))) selector of
        None \<Rightarrow> Inr None
      | Some expr \<Rightarrow> run expr (getFieldSelector selector) t)"

definition rangeEval ::
  "('e \<Rightarrow> string \<Rightarrow> TagExpr \<Rightarrow> panic + iface) \<Rightarrow> 'e VM \<Rightarrow> TagExpr \<Rightarrow> string \<Rightarrow> unit
     \<Rightarrow> panic + iface"
where
  "rangeEval run vm t selector = (\<lambda>_.
     case map_of (exprs (deref vm (s t))) selector of
       None \<Rightarrow> Inl SegFault
     | Some expr \<Rightarrow> run expr (getFieldSelector selector) t)"

text \<open>
  \<^verbatim>\<open>Range\<close>. The callback \<open>fn\<close> belongs to the caller: it gets the selector and the
  thunk, and what it does is a change of the caller's state \<open>'st\<close> beside the boolean
  it returns.
\<close>

fun rangeLoop ::
  "(string \<Rightarrow> unit \<Rightarrow> panic + iface) \<Rightarrow> (string \<Rightarrow> (unit \<Rightarrow> panic + iface) \<Rightarrow> 'st \<Rightarrow> bool \<times> 'st)
     \<Rightarrow> string list \<Rightarrow> 'st \<Rightarrow> 'st"
where
  "rangeLoop ev fn [] st = st"
| "rangeLoop ev fn (selector # rest) st =
     (case fn selector (ev selector) st of
        (False, st1) \<Rightarrow> st1
      | (True, st1) \<Rightarrow> rangeLoop ev fn rest st1)"

definition Range ::
  "('e \<Rightarrow> string \<Rightarrow> TagExpr \<Rightarrow> panic + iface) \<Rightarrow> 'e VM \<Rightarrow> TagExpr
     \<Rightarrow> (string \<Rightarrow> (unit \<Rightarrow> panic + iface) \<Rightarrow> 'st \<Rightarrow> bool \<times> 'st) \<Rightarrow> 'st \<Rightarrow> 'st"
where
  "Range run vm t fn st =
     rangeLoop (rangeEval run vm t) fn (selectorList (deref vm (s t))) st"

subsection \<open>Conversion of a subscript to the key type of a map\<close>

definition isSigned :: "kind \<Rightarrow> bool" where
  "isSigned k = (k \<in> set [IntK, Int8, Int16, Int32, Int64])"

definition bitsOf :: "kind \<Rightarrow> nat" where
  "bitsOf k = (if k = Int8 \<or> k = Uint8 then 8 else if k = Int16 \<or> k = Uint16 then 16
               else if k = Int32 \<or> k = Uint32 then 32 else 64)"

definition wrapInt :: "kind \<Rightarrow> int \<Rightarrow> int" where
  "wrapInt k i =
     (if isSigned k then (i + 2 ^ (bitsOf k - 1)) mod 2 ^ bitsOf k - 2 ^ (bitsOf k - 1)
      else i mod 2 ^ bitsOf k)"

text \<open>
  The conversions \<^verbatim>\<open>int64(f)\<close> and \<^verbatim>\<open>uint64(f)\<close> of a float. Inside the range of the
  target the fraction is dropped. Outside it Go leaves the result to the implementation;
  the model gives what amd64 gives: the smallest \<^verbatim>\<open>int64\<close>, and for \<^verbatim>\<open>uint64\<close> the bits of
  that conversion below \<open>2^63\<close> and zero from \<open>2^64\<close> on. \<^verbatim>\<open>int\<close> has 64 bits.
\<close>

definition int64OfFloat :: "real \<Rightarrow> int" where
  "int64OfFloat r =
     (let i = truncR r in if - (2 ^ 63) \<le> i \<and> i < 2 ^ 63 then i else - (2 ^ 63))"

definition uint64OfFloat :: "real \<Rightarrow> int" where
  "uint64OfFloat r =
     (let i = truncR r in
      if i < 2 ^ 63 then int64OfFloat r mod 2 ^ 64 else if i < 2 ^ 64 then i else 0)"

text \<open>
  A number of the kind \<open>src\<close> converted to the numeric kind \<open>dst\<close>, as the conversions
  of \<^verbatim>\<open>reflect\<close> do it: an integer is wrapped to the width of an integer target and
  rounded for a float target (through \<^verbatim>\<open>float64\<close>), a float goes through \<^verbatim>\<open>int64\<close> or
  \<^verbatim>\<open>uint64\<close> to an integer target. A float converted to \<^verbatim>\<open>float32\<close> is kept as the real
  it denotes: the rounding of that conversion is not modelled.
\<close>

definition convNum :: "kind \<Rightarrow> kind \<Rightarrow> real \<Rightarrow> real" where
  "convNum src dst r =
     (if isFloat src then
        (if isFloat dst then r
         else if isSigned dst then real_of_int (wrapInt dst (int64OfFloat r))
         else real_of_int (wrapInt dst (uint64OfFloat r)))
      else
        (let i = truncR r in
         if dst = Float64 then real_of_int (roundBits 53 i)
         else if dst = Float32 then real_of_int (roundBits 24 (roundBits 53 i))
         else real_of_int (wrapInt dst i)))"

definition byte :: "int \<Rightarrow> char" where
  "byte i = char_of (nat i)"

definition utf8 :: "int \<Rightarrow> string" where
  "utf8 c =
     (if c < 0 \<or> 0x10FFFF < c \<or> (0xD800 \<le> c \<and> c \<le> 0xDFFF) then [byte 0xEF, byte 0xBF, byte 0xBD]
      else if c < 0x80 then [byte c]
      else if c < 0x800 then [byte (0xC0 + c div 64), byte (0x80 + c mod 64)]
      else if c < 0x10000 then
        [byte (0xE0 + c div 4096), byte (0x80 + c div 64 mod 64), byte (0x80 + c mod 64)]
      else [byte (0xF0 + c div 262144), byte (0x80 + c div 4096 mod 64),
            byte (0x80 + c div 64 mod 64), byte (0x80 + c mod 64)])"

fun numOf :: "val \<Rightarrow> real" where
  "numOf (VNum r) = r"
| "numOf v = 0"

text \<open>
  \<^verbatim>\<open>Value.Convert\<close> to the type \<open>dst\<close>, for the conversions of \<^verbatim>\<open>reflect\<close> between the
  types of the model: between numeric kinds, from an integer or a slice of bytes or
  runes to a string, to the same type, and to the empty interface. Any other conversion
  panics, as does the conversion of the zero Value.
\<close>

definition Convert :: "heap \<Rightarrow> Value \<Rightarrow> rtype \<Rightarrow> panic + Value" where
  "Convert h v dst =
     (case v of
        Zero \<Rightarrow> Inl (ValueError ''reflect.Value.Convert'' Invalid)
      | RV src l \<Rightarrow>
          bindP (contents h l) (\<lambda>x.
            if isNumeric (Kind src) \<and> isNumeric (Kind dst) then
              (case x of VNum r \<Rightarrow> Inr (RV dst (Imm (VNum (convNum (Kind src) (Kind dst) r))))
                       | _ \<Rightarrow> Inl BadMemory)
            else if isNumeric (Kind src) \<and> \<not> isFloat (Kind src) \<and> dst = TString then
              (case x of VNum r \<Rightarrow> Inr (RV dst (Imm (VString (utf8 (truncR r)))))
                       | _ \<Rightarrow> Inl BadMemory)
            else if (src = SliceOf (TNum Uint8) \<or> src = SliceOf (TNum Int32)) \<and> dst = TString then
              (case x of
                 VSlice None \<Rightarrow> Inr (RV dst (Imm (VString [])))
               | VSlice (Some xs) \<Rightarrow>
                   Inr (RV dst (Imm (VString
                     (if src = SliceOf (TNum Uint8) then map (\<lambda>b. byte (truncR (numOf b))) xs
                      else concat (map (\<lambda>b. utf8 (truncR (numOf b))) xs)))))
               | _ \<Rightarrow> Inl BadMemory)
            else if src = dst then Inr (RV dst (Imm x))
            else if dst = TInterface then Inr (RV dst (Imm (VIface (Some (src, x)))))
            else Inl (ValueError ''reflect.Value.Convert'' (Kind src))))"

text \<open>\<^verbatim>\<open>safeConvert\<close> recovers from the panic and then returns the zero Value.\<close>

definition safeConvert :: "heap \<Rightarrow> Value \<Rightarrow> rtype \<Rightarrow> Value" where
  "safeConvert h v t = (case Convert h v t of Inl p \<Rightarrow> Zero | Inr c \<Rightarrow> c)"

fun Key :: "Value \<Rightarrow> panic + rtype" where
  "Key (RV (MapOf k e) l) = Inr k"
| "Key v = Inl (ValueError ''reflect.Type.Key'' (VKind v))"

text \<open>\<^verbatim>\<open>Value.MapIndex\<close>: the zero Value for a key that is not in the map, or a nil map.\<close>

definition MapIndex :: "heap \<Rightarrow> Value \<Rightarrow> Value \<Rightarrow> panic + Value" where
  "MapIndex h v key =
     (case (v, key) of
        (RV (MapOf kt et) l, RV kt' kl) \<Rightarrow>
          bindP (contents h l) (\<lambda>x.
          bindP (contents h kl) (\<lambda>kv.
            case x of
              VMap None \<Rightarrow> Inr Zero
            | VMap (Some m) \<Rightarrow>
                (case map_of m kv of None \<Rightarrow> Inr Zero | Some e \<Rightarrow> Inr (RV et (Imm e)))
            | _ \<Rightarrow> Inl BadMemory))
      | _ \<Rightarrow> Inl (ValueError ''reflect.Value.MapIndex'' (VKind v)))"

definition Float_of :: "heap \<Rightarrow> Value \<Rightarrow> panic + real" where
  "Float_of h v =
     (case v of
        Zero \<Rightarrow> Inl (ValueError ''reflect.Value.Float'' Invalid)
      | RV t l \<Rightarrow>
          if isFloat (Kind t)
          then bindP (contents h l) (\<lambda>x. case x of VNum r \<Rightarrow> Inr r | _ \<Rightarrow> Inl BadMemory)
          else Inl (ValueError ''reflect.Value.Float'' (Kind t)))"

subsection \<open>getValue\<close>

lemma bindP_cong [fundef_cong]:
  "m = m' \<Longrightarrow> (\<And>x. m' = Inr x \<Longrightarrow> f x = f' x) \<Longrightarrow> bindP m f = bindP m' f'"
  by (auto simp: bindP_def split: sum.splits)

fun typeSize :: "Value \<Rightarrow> nat" where
  "typeSize Zero = 0"
| "typeSize (RV t l) = size t"

lemma Kind_Ptr: "Kind t = Ptr \<longleftrightarrow> (\<exists>e. t = PtrTo e)"
  by (cases t) (auto simp: isNumeric_def)

lemma Elem_smaller: "VKind v = Ptr \<Longrightarrow> Elem h v = Inr w \<Longrightarrow> typeSize w < typeSize v"
  by (cases v) (auto simp: Kind_Ptr bindP_def split: sum.splits val.splits if_splits)

text \<open>The loop \<^verbatim>\<open>for vv.Kind() == reflect.Ptr { vv = vv.Elem() }\<close>.\<close>

function derefPtr :: "heap \<Rightarrow> Value \<Rightarrow> panic + Value" where
  "derefPtr h vv = (if VKind vv = Ptr then bindP (Elem h vv) (\<lambda>e. derefPtr h e) else Inr vv)"
  by pat_completeness auto

termination
  by (relation "measure (\<lambda>(h, vv). typeSize vv)") (auto simp: Elem_smaller)

declare derefPtr.simps [simp del]

text \<open>
  The loop over the subscripts; \<open>None\<close> is a \<^verbatim>\<open>return nil\<close> from inside the loop. The
  conversion \<^verbatim>\<open>int(float)\<close> is \<open>int64OfFloat\<close>.
\<close>

fun subscripts :: "heap \<Rightarrow> iface list \<Rightarrow> Value \<Rightarrow> panic + Value option" where
  "subscripts h [] vv = Inr (Some vv)"
| "subscripts h (k # ks) vv0 =
     bindP (derefPtr h vv0) (\<lambda>vv.
       if VKind vv = Slice \<or> VKind vv = Array \<or> VKind vv = String then
         (case k of
            Some (kt, VNum float) \<Rightarrow>
              if kt = TNum Float64 then
                let idx = int64OfFloat float in
                bindP (Len h vv) (\<lambda>n.
                  if idx \<ge> n then Inr None
                  else bindP (Index h vv idx) (\<lambda>e. subscripts h ks e))
              else Inr None
          | _ \<Rightarrow> Inr None)
       else if VKind vv = Map then
         bindP (Key vv) (\<lambda>kt.
           let k1 = safeConvert h (ValueOf k) kt in
           if \<not> IsValid k1 then Inr None
           else bindP (MapIndex h vv k1) (\<lambda>e. subscripts h ks e))
       else Inr None)"

text \<open>The switch after the loop.\<close>

definition terminalValue :: "heap \<Rightarrow> Value \<Rightarrow> panic + iface" where
  "terminalValue h vv =
     (if VKind vv = String then bindP (String_of h vv) (\<lambda>x. Inr (Some (TString, VString x)))
      else if VKind vv = Bool then bindP (Bool_of h vv) (\<lambda>b. Inr (Some (TBool, VBool b)))
      else if isNumeric (VKind vv) then
        (if CanAddr vv then bindP (UnsafeAddr vv) (getFloat64 h (VKind vv))
         else bindP (Convert h vv (TNum Float64)) (\<lambda>c.
              bindP (Float_of h c) (\<lambda>r. Inr (float64 r))))
      else
        bindP (IsNil h vv) (\<lambda>isnil.
          if isnil then Inr None
          else bindP (CanInterface vv) (\<lambda>can.
            if can then Interface_of h vv else Inr None)))"

definition getValue :: "'e VM \<Rightarrow> heap \<Rightarrow> TagExpr \<Rightarrow> string \<Rightarrow> iface list \<Rightarrow> panic + iface" where
  "getValue vm h t field subFields =
     (case map_of (fields' (deref vm (s t))) field of
        None \<Rightarrow> Inr None
      | Some f \<Rightarrow>
          (case valueGetter f of
             None \<Rightarrow> Inr None
           | Some get \<Rightarrow>
               bindP (get h (ptr t)) (\<lambda>v.
                 if v = None then Inr None
                 else if length subFields = 0 then Inr v
                 else
                   bindP (subscripts h subFields (ValueOf v)) (\<lambda>r.
                     case r of
                       None \<Rightarrow> Inr None
                     | Some vv \<Rightarrow> bindP (derefPtr h vv) (terminalValue h)))))"

section \<open>Instances used to run the code\<close>

text \<open>
  A compiler that accepts every source text and keeps it as the compiled expression.
\<close>

definition keepSource :: "string \<Rightarrow> error + string" where
  "keepSource x = Inr x"

text \<open>
  \<^verbatim>\<open>type Seq struct { Xs []int }\<close>, with an instance at address \<open>0x1000\<close> whose \<open>Xs\<close> is
  \<^verbatim>\<open>[]int{1, 2, 3}\<close>.
\<close>

definition seqDecls :: decls where
  "seqDecls = [(''Seq'', [\<lparr>Name = ''Xs'', Type = SliceOf (TNum IntK), Tag = [], Offset = 0\<rparr>])]"

definition seqHeap :: heap where
  "seqHeap = (\<lambda>a. None)(0x1000 \<mapsto> VSlice (Some [VNum 1, VNum 2, VNum 3]))"

text \<open>
  \<^verbatim>\<open>type Dict struct { M map[string]int }\<close>, with an instance at address \<open>0x1000\<close> whose
  \<open>M\<close> is \<^verbatim>\<open>map[string]int{"a": 1}\<close>.
\<close>

definition dictDecls :: decls where
  "dictDecls = [(''Dict'', [\<lparr>Name = ''M'', Type = MapOf TString (TNum IntK), Tag = [], Offset = 0\<rparr>])]"

definition dictHeap :: heap where
  "dictHeap = (\<lambda>a. None)(0x1000 \<mapsto> VMap (Some [(VString ''a'', VNum 1)]))"

text \<open>
  \<^verbatim>\<open>type Opt struct { P *[]int; B *bool; BB **bool }\<close>, with an instance at address
  \<open>0x1000\<close> whose three pointers are nil.
\<close>

definition optDecls :: decls where
  "optDecls =
     [(''Opt'', [\<lparr>Name = ''P'', Type = PtrTo (SliceOf (TNum IntK)), Tag = [], Offset = 0\<rparr>,
                 \<lparr>Name = ''B'', Type = PtrTo TBool, Tag = [], Offset = 8\<rparr>,
                 \<lparr>Name = ''BB'', Type = PtrTo (PtrTo TBool), Tag = [], Offset = 16\<rparr>])]"

definition optHeap :: heap where
  "optHeap = (\<lambda>a. None)(0x1000 \<mapsto> VPtr 0, 0x1008 \<mapsto> VPtr 0, 0x1010 \<mapsto> VPtr 0)"

text \<open>
  \<^verbatim>\<open>type Address struct { City string `tagexpr:"len($)>0"` }\<close> and
  \<^verbatim>\<open>type Host struct { Id int64; Addr *Address }\<close>, with a \<open>Host\<close> at address \<open>0x1000\<close>
  whose \<open>Addr\<close> is nil.
\<close>

definition hostDecls :: decls where
  "hostDecls =
     [(''Host'', [\<lparr>Name = ''Id'', Type = TNum Int64, Tag = [], Offset = 0\<rparr>,
                  \<lparr>Name = ''Addr'', Type = PtrTo (StructType ''Address''), Tag = [], Offset = 8\<rparr>]),
      (''Address'', [\<lparr>Name = ''City'', Type = TString, Tag = [(''tagexpr'', ''len($)>0'')],
                      Offset = 0\<rparr>])]"

definition hostHeap :: heap where
  "hostHeap = (\<lambda>a. None)(0x1000 \<mapsto> VNum 7, 0x1008 \<mapsto> VPtr 0)"

text \<open>
  A descriptor with three expressions, and a callback that counts its calls and stops at
  \<open>B@\<close>.
\<close>

definition rangeVM :: "string VM" where
  "rangeVM = store (New ''tagexpr'') ''T''
     (newStruct\<lparr>exprs := [(''A@'', ''1''), (''B@'', ''2''), (''C@'', ''3'')],
                 selectorList := [''A@'', ''B@'', ''C@'']\<rparr>)"

definition stopAtB :: "string \<Rightarrow> (unit \<Rightarrow> panic + iface) \<Rightarrow> nat \<Rightarrow> bool \<times> nat" where
  "stopAtB selector eval n = (selector \<noteq> ''B@'', Suc n)"

text \<open>
  \<^verbatim>\<open>type Node struct { Val int `tagexpr:"$>0"`; Next *Node }\<close>
\<close>

definition nodeDecls :: decls where
  "nodeDecls =
     [(''Node'', [\<lparr>Name = ''Val'', Type = TNum IntK, Tag = [(''tagexpr'', ''$>0'')], Offset = 0\<rparr>,
                  \<lparr>Name = ''Next'', Type = PtrTo (StructType ''Node''), Tag = [], Offset = 8\<rparr>])]"

text \<open>The registry after \<open>Seq\<close> is registered, and a compiler that rejects every source.\<close>

definition seqVM :: "string VM" where
  "seqVM = (case registerStructLocked keepSource seqDecls 2 (New ''tagexpr'') (StructType ''Seq'') of
              Some (vm, r) \<Rightarrow> vm | None \<Rightarrow> New [])"


text \<open>\<^verbatim>\<open>type Bad struct { A int `tagexpr:"{"` }\<close>: the annotation is an unclosed group.\<close>

definition badDecls :: decls where
  "badDecls = [(''Bad'', [\<lparr>Name = ''A'', Type = TNum IntK, Tag = [(''tagexpr'', ''{'')], Offset = 0\<rparr>])]"

text \<open>
  \<^verbatim>\<open>type Dup struct { A int `tagexpr:"{@:$>0}{@:$<9}"` }\<close>, and the registry after the
  registration of \<open>Host\<close>.
\<close>

definition dupDecls :: decls where
  "dupDecls =
     [(''Dup'', [\<lparr>Name = ''A'', Type = TNum IntK, Tag = [(''tagexpr'', ''{@:$>0}{@:$<9}'')],
                  Offset = 0\<rparr>])]"

definition hostVM :: "string VM" where
  "hostVM = (case registerStructLocked keepSource hostDecls 2 (New ''tagexpr'') (StructType ''Host'') of
               Some (vm, r) \<Rightarrow> vm | None \<Rightarrow> New [])"

text \<open>
  \<^verbatim>\<open>type Address struct { Addr *Address; City string `tagexpr:"len($)>0"` }\<close>, a type with
  a field of its own type, and \<^verbatim>\<open>type Host struct { Id int64; Addr Address }\<close> with
  \<^verbatim>\<open>type Address struct { City string `tagexpr:"len($)>0"` }\<close>.
\<close>

definition selfDecls :: decls where
  "selfDecls =
     [(''Address'', [\<lparr>Name = ''Addr'', Type = PtrTo (StructType ''Address''), Tag = [], Offset = 0\<rparr>,
                     \<lparr>Name = ''City'', Type = TString, Tag = [(''tagexpr'', ''len($)>0'')],
                       Offset = 8\<rparr>])]"

definition flatDecls :: decls where
  "flatDecls =
     [(''Host'', [\<lparr>Name = ''Id'', Type = TNum Int64, Tag = [], Offset = 0\<rparr>,
                  \<lparr>Name = ''Addr'', Type = StructType ''Address'', Tag = [], Offset = 8\<rparr>]),
      (''Address'', [\<lparr>Name = ''City'', Type = TString, Tag = [(''tagexpr'', ''len($)>0'')],
                      Offset = 0\<rparr>])]"

definition flatVM :: "string VM" where
  "flatVM = (case registerStructLocked keepSource flatDecls 2 (New ''tagexpr'') (StructType ''Host'') of
               Some (vm, r) \<Rightarrow> vm | None \<Rightarrow> New [])"

text \<open>
  \<^verbatim>\<open>type Address struct { H *Host; City string `tagexpr:"len($)>0"` }\<close> and
  \<^verbatim>\<open>type Host struct { Id int64; Addr *Address }\<close>: two types that contain each other.
\<close>

definition mutDecls :: decls where
  "mutDecls =
     [(''Address'', [\<lparr>Name = ''H'', Type = PtrTo (StructType ''Host''), Tag = [], Offset = 0\<rparr>,
                     \<lparr>Name = ''City'', Type = TString, Tag = [(''tagexpr'', ''len($)>0'')],
                       Offset = 8\<rparr>]),
      (''Host'', [\<lparr>Name = ''Id'', Type = TNum Int64, Tag = [], Offset = 0\<rparr>,
                  \<lparr>Name = ''Addr'', Type = PtrTo (StructType ''Address''), Tag = [], Offset = 8\<rparr>])]"

text \<open>
  Memory with a \<open>Host\<close> of \<open>hostDecls\<close> at address \<open>0x1000\<close> whose \<open>Addr\<close> points to
  an \<open>Address\<close> at \<open>0x2000\<close>.
\<close>

definition addrHeap :: heap where
  "addrHeap = (\<lambda>a. None)(0x1000 \<mapsto> VNum 7, 0x1008 \<mapsto> VPtr 0x2000, 0x2000 \<mapsto> VString ''Oslo'')"

text \<open>
  \<^verbatim>\<open>type Blank struct { _ int `tagexpr:"$>0"`; _ int `tagexpr:"$<9"` }\<close>: Go allows
  several blank fields in a struct; \<^verbatim>\<open>reflect\<close> gives each the name \<open>_\<close>.
\<close>

definition blankDecls :: decls where
  "blankDecls =
     [(''Blank'', [\<lparr>Name = ''_'', Type = TNum IntK, Tag = [(''tagexpr'', ''$>0'')], Offset = 0\<rparr>,
                   \<lparr>Name = ''_'', Type = TNum IntK, Tag = [(''tagexpr'', ''$<9'')], Offset = 8\<rparr>])]"

section \<open>Properties of registries, descriptors and annotations\<close>

text \<open>
  A callback that records its calls: the selector it was given and what it returned.
\<close>

definition traced ::
  "(string \<Rightarrow> (unit \<Rightarrow> panic + iface) \<Rightarrow> 'st \<Rightarrow> bool \<times> 'st)
   \<Rightarrow> string \<Rightarrow> (unit \<Rightarrow> panic + iface) \<Rightarrow> (string \<times> bool) list \<times> 'st \<Rightarrow> bool \<times> (string \<times> bool) list \<times> 'st"
where
  "traced fn selector eval = (\<lambda>(tr, st).
     case fn selector eval st of (b, st1) \<Rightarrow> (b, (tr @ [(selector, b)], st1)))"

definition stopsAtFirstFalse :: "string list \<Rightarrow> (string \<times> bool) list \<Rightarrow> bool" where
  "stopsAtFirstFalse xs tr =
     (map fst tr = take (length tr) xs
      \<and> (\<forall>i. Suc i < length tr \<longrightarrow> snd (tr ! i))
      \<and> (length tr < length xs \<longrightarrow> tr \<noteq> [] \<and> \<not> snd (last tr)))"

text \<open>
  \<open>frame vm vm'\<close>: the descriptors of \<open>vm\<close> are in \<open>vm'\<close> as they were.
  \<open>frameExcept sp vm vm'\<close>: the same but for the descriptor \<open>sp\<close>, which is still
  there.
\<close>

definition frame :: "'e VM \<Rightarrow> 'e VM \<Rightarrow> bool" where
  "frame vm vm' =
     (tagName vm' = tagName vm
      \<and> (\<forall>n. structJar vm n \<noteq> None \<longrightarrow> structJar vm' n = structJar vm n))"

definition frameExcept :: "string \<Rightarrow> 'e VM \<Rightarrow> 'e VM \<Rightarrow> bool" where
  "frameExcept sp vm vm' =
     (tagName vm' = tagName vm
      \<and> (\<forall>n. n \<noteq> sp \<and> structJar vm n \<noteq> None \<longrightarrow> structJar vm' n = structJar vm n)
      \<and> (structJar vm sp \<noteq> None \<longrightarrow> structJar vm' sp \<noteq> None))"

text \<open>The declared struct types that the registry does not hold.\<close>

definition unregistered :: "decls \<Rightarrow> 'e VM \<Rightarrow> string list" where
  "unregistered ds vm = filter (\<lambda>n. structJar vm n = None) (map fst ds)"

text \<open>What \<^verbatim>\<open>Run\<close> returns, without the registry.\<close>

definition outcome :: "(panic + 'e VM \<times> (error + TagExpr)) option \<Rightarrow> (panic + error + TagExpr) option" where
  "outcome r = map_option (map_sum id snd) r"

text \<open>
  A selector or field name of a descriptor starts with the name of the field of the type
  it was made for: \<open>F@...\<close> for an expression of the field \<open>F\<close>, \<open>F.k\<close> for what was
  flattened into it. The owner of a key is its part before the first dot or at sign. Go
  field names are identifiers, so they hold neither character (\<open>plainName\<close>), and the
  fields of one struct have different names (\<open>wfFields\<close>).
\<close>

definition special :: "char \<Rightarrow> bool" where
  "special c = (c = CHR ''.'' \<or> c = CHR ''@'')"

definition owner :: "string \<Rightarrow> string" where
  "owner sel = takeWhile (\<lambda>c. \<not> special c) sel"

definition plainName :: "string \<Rightarrow> bool" where
  "plainName n = list_all (\<lambda>c. \<not> special c) n"

definition wfDesc :: "'e Struct \<Rightarrow> bool" where
  "wfDesc d =
     (distinct (selectorList d) \<and> distinct (map fst (exprs d))
      \<and> set (selectorList d) = fst ` set (exprs d) \<and> distinct (map fst (fields' d)))"

text \<open>
  \<open>addsFor nm d d'\<close>: from \<open>d\<close> to \<open>d'\<close> only expressions of the field \<open>nm\<close> were
  added, their selectors at the end of the selector list.
\<close>

definition addsFor :: "string \<Rightarrow> 'e Struct \<Rightarrow> 'e Struct \<Rightarrow> bool" where
  "addsFor nm d d' =
     (fields' d' = fields' d
      \<and> (\<exists>new. selectorList d' = selectorList d @ new
                \<and> list_all (\<lambda>sel. take (Suc (length nm)) sel = nm @ ''@'') new)
      \<and> (\<forall>key. take (Suc (length nm)) key \<noteq> nm @ ''@''
                \<longrightarrow> map_of (exprs d') key = map_of (exprs d) key))"

text \<open>
  Declarations whose structs have well-formed fields, a registry of well-formed
  descriptors, and a descriptor that has no selector of the field \<open>nm\<close>.
\<close>

definition wfFields :: "StructField list \<Rightarrow> bool" where
  "wfFields fs = (distinct (map Name fs) \<and> list_all (\<lambda>f. plainName (Name f)) fs)"

definition wfDecls :: "decls \<Rightarrow> bool" where
  "wfDecls ds = list_all (\<lambda>(n, fs). wfFields fs) ds"

definition allWf :: "'e VM \<Rightarrow> bool" where
  "allWf vm = (\<forall>n d. structJar vm n = Some d \<longrightarrow> wfDesc d)"

definition notOwned :: "string \<Rightarrow> 'e Struct \<Rightarrow> bool" where
  "notOwned nm d = list_all (\<lambda>sel. owner sel \<noteq> nm) (selectorList d)"

text \<open>
  The selector that \<^verbatim>\<open>parseExprs\<close> makes of the name \<open>n\<close> in a group of the field
  \<open>fname\<close>.
\<close>

definition selectorFor :: "string \<Rightarrow> string \<Rightarrow> string" where
  "selectorFor fname n = (if n = ''@'' then fname @ n else fname @ ''@'' @ n)"

text \<open>
  An annotation made of groups: each group is a name, an expression source and the white
  space that follows the closing brace.
\<close>

fun renderGroups :: "(string \<times> string \<times> string) list \<Rightarrow> string" where
  "renderGroups [] = []"
| "renderGroups ((n, e, ws) # gs) = ''{'' @ n @ '':'' @ e @ ''}'' @ ws @ renderGroups gs"

definition groupName :: "string \<times> string \<times> string \<Rightarrow> string" where
  "groupName g = TrimSpace (fst g)"

text \<open>
  A group that \<^verbatim>\<open>parseExprs\<close> reads as one definition: no brace inside, no colon in the
  name, a name and a source that are not blank, and a source that compiles.
\<close>

definition wfGroup :: "(string \<Rightarrow> error + 'e) \<Rightarrow> string \<times> string \<times> string \<Rightarrow> bool" where
  "wfGroup parseExpr g =
     (case g of (n, e, ws) \<Rightarrow>
        CHR ''{'' \<notin> set (n @ e) \<and> CHR ''}'' \<notin> set (n @ e) \<and> CHR '':'' \<notin> set n
        \<and> TrimSpace n \<noteq> [] \<and> TrimSpace e \<noteq> [] \<and> \<not> isl (parseExpr (TrimSpace e))
        \<and> list_all isSpace ws)"

text \<open>
  \<open>keeps names d d'\<close>: from \<open>d\<close> to \<open>d'\<close> only keys owned by \<open>names\<close> were
  added or changed.
\<close>

definition keeps :: "string set \<Rightarrow> 'e Struct \<Rightarrow> 'e Struct \<Rightarrow> bool" where
  "keeps names d d' =
     ((\<forall>g. plainName g \<and> g \<notin> names \<and> notOwned g d \<longrightarrow> notOwned g d')
      \<and> (\<forall>key. owner key \<notin> names \<longrightarrow>
             map_of (exprs d') key = map_of (exprs d) key
             \<and> map_of (fields' d') key = map_of (fields' d) key)
      \<and> set (selectorList d) \<subseteq> set (selectorList d'))"

text \<open>
  \<open>follow h n a\<close>: what the last of a chain of \<open>n\<close> pointers holds, the first of
  which lies at the address \<open>a\<close>; no pointer of the chain but the last may be nil.
  It is the address of the nested struct of a field at \<open>a\<close> that is \<open>n\<close> pointers deep,
  and \<open>a\<close> itself when \<open>n\<close> is zero.
\<close>

fun follow :: "heap \<Rightarrow> nat \<Rightarrow> uintptr \<Rightarrow> uintptr option" where
  "follow h 0 a = Some a"
| "follow h (Suc n) a =
     (if a = 0 then None
      else case h a of Some (VPtr p) \<Rightarrow> follow h n p | _ \<Rightarrow> None)"

section \<open>Faults of the evaluation\<close>

text \<open>
  C2. The claim: the getter of a field behind pointers returns nil, and never faults, when
  a pointer of the chain is nil. The getters of \<^verbatim>\<open>setBoolGetter\<close>, \<^verbatim>\<open>setStringGetter\<close> and
  \<^verbatim>\<open>setFloatGetter\<close> test the Value they reach and return nil, as \<open>B\<close> shows; the getter
  of \<^verbatim>\<open>setLengthGetter\<close> calls \<^verbatim>\<open>Interface\<close> on the zero Value and panics (\<open>P\<close>), a
  chain of two pointers whose first is nil panics in \<^verbatim>\<open>Elem\<close> (\<open>BB\<close>), and the getter
  that \<^verbatim>\<open>copySubFields\<close> composes calls the nested getter at address 0, which faults
  (\<open>Addr.City\<close>).
\<close>

theorem getter_nil_pointer_faults:
  "(case Run keepSource optDecls 1 optHeap (New ''tagexpr'')
           (Some (PtrTo (StructType ''Opt''), VPtr 0x1000)) of
      Some (Inr (vm, Inr t)) \<Rightarrow>
        getValue vm optHeap t ''B'' [] = Inr None \<and>
        getValue vm optHeap t ''P'' [] = Inl (ValueError ''reflect.Value.Interface'' Invalid) \<and>
        getValue vm optHeap t ''BB'' [] = Inl (ValueError ''reflect.Value.Elem'' Invalid)
    | _ \<Rightarrow> False) \<and>
   (case Run keepSource hostDecls 2 hostHeap (New ''tagexpr'')
           (Some (PtrTo (StructType ''Host''), VPtr 0x1000)) of
      Some (Inr (vm, Inr t)) \<Rightarrow> getValue vm hostHeap t ''Addr.City'' [] = Inl SegFault
    | _ \<Rightarrow> False)"
  by code_simp

text \<open>
  C3. The claim: a numeric subscript out of the range of a sequence gives nil and no
  fault. The loop of \<^verbatim>\<open>getValue\<close> tests \<^verbatim>\<open>idx >= vv.Len()\<close> only: the subscript 5 of a
  slice of length 3 gives nil, the subscript -1 reaches \<^verbatim>\<open>vv.Index(-1)\<close>, which panics.
\<close>

theorem getValue_negative_subscript_panics:
  "(case Run keepSource seqDecls 1 seqHeap (New ''tagexpr'')
           (Some (PtrTo (StructType ''Seq''), VPtr 0x1000)) of
      Some (Inr (vm, Inr t)) \<Rightarrow>
        getValue vm seqHeap t ''Xs'' [float64 2] = Inr (float64 3) \<and>
        getValue vm seqHeap t ''Xs'' [float64 5] = Inr None \<and>
        getValue vm seqHeap t ''Xs'' [float64 (- 1)] = Inl IndexOutOfRange
    | _ \<Rightarrow> False)"
  by code_simp

text \<open>
  C4. The claim: a key that cannot be converted to the key type, and a key that is not in
  the map, both give nil and no fault. The first holds (a \<^verbatim>\<open>float64\<close> subscript of a
  \<^verbatim>\<open>map[string]int\<close>). For the second, \<^verbatim>\<open>MapIndex\<close> gives the zero Value; when the
  subscript is the last one, the switch after the loop takes its \<^verbatim>\<open>default\<close> case and
  calls \<^verbatim>\<open>IsNil\<close> on the zero Value, which panics. When another subscript follows, the
  loop returns nil.
\<close>

theorem getValue_absent_key_panics:
  "(case Run keepSource dictDecls 1 dictHeap (New ''tagexpr'')
           (Some (PtrTo (StructType ''Dict''), VPtr 0x1000)) of
      Some (Inr (vm, Inr t)) \<Rightarrow>
        getValue vm dictHeap t ''M'' [Some (TString, VString ''a'')] = Inr (float64 1) \<and>
        getValue vm dictHeap t ''M'' [float64 1] = Inr None \<and>
        getValue vm dictHeap t ''M'' [Some (TString, VString ''b''), float64 0] = Inr None \<and>
        getValue vm dictHeap t ''M'' [Some (TString, VString ''b'')]
          = Inl (ValueError ''reflect.Value.IsNil'' Invalid)
    | _ \<Rightarrow> False)"
  by code_simp

section \<open>Run and registration through pointers\<close>

lemma getStructType_funpow:
  "getStructType t0 ((PtrTo ^^ n) (StructType nm)) = Inr (StructType nm)"
  by (induction n) simp_all

lemma registerStructLocked_via_getStructType:
  "getStructType t t = getStructType t' t' \<Longrightarrow>
   registerStructLocked parseExpr ds fuel vm t = registerStructLocked parseExpr ds fuel vm t'"
  by (simp add: registerStructLocked.simps)

text \<open>
  C10. \<^verbatim>\<open>Run\<close> accepts one level of pointer only: given a pointer to a pointer (to anything,
  a struct included, nil or not) it returns the not-structure-pointer error and leaves the
  registry as it is. \<^verbatim>\<open>getStructType\<close> strips any number of pointer layers, so
  \<^verbatim>\<open>registerStructLocked\<close> and \<^verbatim>\<open>WarmUp\<close> do for such a type what they do for the struct
  type itself; for \<^verbatim>\<open>**Seq\<close> that is a successful registration of \<open>Seq\<close>.
\<close>

theorem Run_one_pointer_level:
  "Run parseExpr ds fuel h vm (Some (PtrTo (PtrTo t), VPtr a))
     = Some (Inr (vm, Inl (NotStructurePointer (TypeString (PtrTo (PtrTo t))))))
   \<and> getStructType ((PtrTo ^^ n) (StructType nm)) ((PtrTo ^^ n) (StructType nm)) = Inr (StructType nm)
   \<and> registerStructLocked parseExpr ds fuel vm ((PtrTo ^^ n) (StructType nm))
     = registerStructLocked parseExpr ds fuel vm (StructType nm)
   \<and> WarmUp parseExpr ds fuel vm [Some ((PtrTo ^^ n) (StructType nm), x)]
     = WarmUp parseExpr ds fuel vm [Some (StructType nm, y)]
   \<and> map_option snd (registerStructLocked keepSource seqDecls 1 (New ''tagexpr'')
                        (PtrTo (PtrTo (StructType ''Seq'')))) = Some (Inr ''Seq'')"
proof -
  have ex: "map_option snd (registerStructLocked keepSource seqDecls 1 (New ''tagexpr'')
                        (PtrTo (PtrTo (StructType ''Seq'')))) = Some (Inr ''Seq'')"
    by code_simp
  have run: "Run parseExpr ds fuel h vm (Some (PtrTo (PtrTo t), VPtr a))
     = Some (Inr (vm, Inl (NotStructurePointer (TypeString (PtrTo (PtrTo t))))))"
    by (simp add: Run_def bindP_def)
  have reg: "registerStructLocked parseExpr ds fuel vm ((PtrTo ^^ n) (StructType nm))
     = registerStructLocked parseExpr ds fuel vm (StructType nm)"
    by (rule registerStructLocked_via_getStructType) (simp add: getStructType_funpow)
  have warm: "WarmUp parseExpr ds fuel vm [Some ((PtrTo ^^ n) (StructType nm), x)]
     = WarmUp parseExpr ds fuel vm [Some (StructType nm, y)]"
    unfolding WarmUp.simps option.case prod.case reg ..
  from run reg warm ex show ?thesis by (simp add: getStructType_funpow)
qed

section \<open>Range\<close>

lemma stopsAtFirstFalse_Cons:
  "stopsAtFirstFalse xs tr \<Longrightarrow> stopsAtFirstFalse (x # xs) ((x, True) # tr)"
  unfolding stopsAtFirstFalse_def
proof (intro conjI allI impI)
  assume a: "map fst tr = take (length tr) xs \<and> (\<forall>i. Suc i < length tr \<longrightarrow> snd (tr ! i)) \<and>
    (length tr < length xs \<longrightarrow> tr \<noteq> [] \<and> \<not> snd (last tr))"
  show "map fst ((x, True) # tr) = take (length ((x, True) # tr)) (x # xs)" using a by simp
  show "(x, True) # tr \<noteq> []" by simp
  { fix i assume "Suc i < length ((x, True) # tr)"
    then show "snd (((x, True) # tr) ! i)" using a by (cases i) auto }
  { assume "length ((x, True) # tr) < length (x # xs)"
    then show "\<not> snd (last ((x, True) # tr))" using a by auto }
qed

lemma rangeLoop_traced:
  "\<exists>tr' st'. rangeLoop ev (traced fn) xs (tr, st) = (tr @ tr', st') \<and> stopsAtFirstFalse xs tr'"
proof (induction xs arbitrary: tr st)
  case Nil
  show ?case by (simp add: stopsAtFirstFalse_def)
next
  case (Cons x xs)
  obtain b st1 where fn: "fn x (ev x) st = (b, st1)" by (cases "fn x (ev x) st")
  show ?case
  proof (cases b)
    case False
    with fn have "rangeLoop ev (traced fn) (x # xs) (tr, st) = (tr @ [(x, False)], st1)"
      by (simp add: traced_def)
    moreover have "stopsAtFirstFalse (x # xs) [(x, False)]"
      by (simp add: stopsAtFirstFalse_def)
    ultimately show ?thesis by blast
  next
    case True
    with fn have step: "rangeLoop ev (traced fn) (x # xs) (tr, st)
        = rangeLoop ev (traced fn) xs (tr @ [(x, True)], st1)"
      by (simp add: traced_def)
    from Cons.IH [of "tr @ [(x, True)]" st1] obtain tr' st' where
      r: "rangeLoop ev (traced fn) xs (tr @ [(x, True)], st1) = ((tr @ [(x, True)]) @ tr', st')"
      and s: "stopsAtFirstFalse xs tr'" by blast
    from step r have "rangeLoop ev (traced fn) (x # xs) (tr, st) = (tr @ ((x, True) # tr'), st')"
      by simp
    with stopsAtFirstFalse_Cons [OF s] show ?thesis by blast
  qed
qed

lemma rangeLoop_thunks:
  "rangeLoop ev (traced fn) xs (tr, st) = (tr @ tr', st') \<Longrightarrow>
   \<forall>sel \<in> set (map fst tr'). ev' sel = ev sel \<Longrightarrow>
   rangeLoop ev' (traced fn) xs (tr, st) = (tr @ tr', st')"
proof (induction xs arbitrary: tr st tr')
  case Nil
  then show ?case by simp
next
  case (Cons x xs)
  obtain b st1 where fn: "fn x (ev x) st = (b, st1)" by (cases "fn x (ev x) st")
  show ?case
  proof (cases b)
    case False
    with fn Cons.prems(1) have tr': "tr' = [(x, False)]" and "st' = st1"
      by (simp_all add: traced_def)
    with Cons.prems(2) have "ev' x = ev x" by simp
    with fn False tr' \<open>st' = st1\<close> show ?thesis by (simp add: traced_def)
  next
    case True
    with fn have step: "rangeLoop ev (traced fn) (x # xs) (tr, st)
        = rangeLoop ev (traced fn) xs (tr @ [(x, True)], st1)"
      by (simp add: traced_def)
    from rangeLoop_traced [of ev fn xs "tr @ [(x, True)]" st1] obtain tr2 st2 where
      r: "rangeLoop ev (traced fn) xs (tr @ [(x, True)], st1) = ((tr @ [(x, True)]) @ tr2, st2)"
      by blast
    with step Cons.prems(1) have tr': "tr' = (x, True) # tr2" and st': "st' = st2" by simp_all
    with Cons.prems(2) have ex: "ev' x = ev x" and rest: "\<forall>sel \<in> set (map fst tr2). ev' sel = ev sel"
      by simp_all
    from r st' have r2:
      "rangeLoop ev (traced fn) xs (tr @ [(x, True)], st1) = ((tr @ [(x, True)]) @ tr2, st')"
      by simp
    from Cons.IH [OF r2 rest] have
      "rangeLoop ev' (traced fn) xs (tr @ [(x, True)], st1) = ((tr @ [(x, True)]) @ tr2, st')" .
    moreover from fn True ex have "rangeLoop ev' (traced fn) (x # xs) (tr, st)
        = rangeLoop ev' (traced fn) xs (tr @ [(x, True)], st1)"
      by (simp add: traced_def)
    ultimately show ?thesis using tr' by simp
  qed
qed

text \<open>
  C7. \<^verbatim>\<open>Range\<close> calls the callback on the selectors in the order of \<^verbatim>\<open>selectorList\<close>, the
  order in which they were registered in the descriptor, and stops with the first call
  that returns false: the calls made (\<open>tr\<close>, each with what the callback returned) are a
  prefix of the list, all but the last returned true, and the last returned false unless
  the list was exhausted. The thunks of the selectors after it are never evaluated: the
  run is the same whatever they would compute.
\<close>

theorem Range_visits_in_order_and_stops:
  assumes "Range run vm t (traced fn) ([], st) = (tr, st')"
  shows "stopsAtFirstFalse (selectorList (deref vm (s t))) tr
         \<and> ((\<forall>sel \<in> set (map fst tr). rangeEval run' vm t sel = rangeEval run vm t sel)
              \<longrightarrow> Range run' vm t (traced fn) ([], st) = (tr, st'))"
proof -
  let ?xs = "selectorList (deref vm (s t))"
  from assms have r: "rangeLoop (rangeEval run vm t) (traced fn) ?xs ([], st) = ([] @ tr, st')"
    by (simp add: Range_def)
  from rangeLoop_traced [of "rangeEval run vm t" fn ?xs "[]" st] r
  have "stopsAtFirstFalse ?xs tr" by auto
  moreover have "(\<forall>sel \<in> set (map fst tr). rangeEval run' vm t sel = rangeEval run vm t sel)
              \<longrightarrow> Range run' vm t (traced fn) ([], st) = (tr, st')"
    using rangeLoop_thunks [OF r, of "rangeEval run' vm t"] by (simp add: Range_def)
  ultimately show ?thesis by simp
qed

theorem Range_visits_in_order_and_stops_witness:
  "Range (\<lambda>e f t. Inr None) rangeVM (newTagExpr ''T'' 0x1000) (traced stopAtB) ([], 0)
     = ([(''A@'', True), (''B@'', False)], 2)
   \<and> stopsAtFirstFalse [''A@'', ''B@'', ''C@''] [(''A@'', True), (''B@'', False)]
   \<and> Range (\<lambda>e f t. if e = ''3'' then Inl SegFault else Inr None) rangeVM (newTagExpr ''T'' 0x1000)
        (traced stopAtB) ([], 0) = ([(''A@'', True), (''B@'', False)], 2)"
proof -
  have r: "Range (\<lambda>e f t. Inr None) rangeVM (newTagExpr ''T'' 0x1000) (traced stopAtB) ([], 0)
     = ([(''A@'', True), (''B@'', False)], 2)"
    by (simp add: Range_def rangeVM_def store_def deref_def New_def newStruct_def newTagExpr_def
          traced_def stopAtB_def)
  have sl: "selectorList (deref rangeVM (s (newTagExpr ''T'' 0x1000))) = [''A@'', ''B@'', ''C@'']"
    by (simp add: rangeVM_def store_def deref_def New_def newStruct_def newTagExpr_def)
  have ev: "\<forall>sel \<in> set (map fst [(''A@'', True), (''B@'', False)]).
      rangeEval (\<lambda>e f t. if e = ''3'' then Inl SegFault else Inr None) rangeVM (newTagExpr ''T'' 0x1000) sel
      = rangeEval (\<lambda>e f t. Inr None) rangeVM (newTagExpr ''T'' 0x1000) sel"
    by (simp add: rangeEval_def rangeVM_def store_def deref_def New_def newStruct_def newTagExpr_def)
  from Range_visits_in_order_and_stops [OF r, of "\<lambda>e f t. if e = ''3'' then Inl SegFault else Inr None"] r sl ev
  show ?thesis by simp
qed

section \<open>Registration: what it leaves unchanged, and that it returns\<close>

lemma frameExcept_refl: "frameExcept sp vm vm"
  by (simp add: frameExcept_def)

lemma frameExcept_store: "frameExcept sp vm (store vm sp d)"
  by (simp add: frameExcept_def store_def)

lemma frameExcept_trans:
  "frameExcept sp vm vm1 \<Longrightarrow> frameExcept sp vm1 vm2 \<Longrightarrow> frameExcept sp vm vm2"
  by (auto simp: frameExcept_def)

lemma frameExcept_frame:
  "frameExcept sp vm vm1 \<Longrightarrow> frame vm1 vm2 \<Longrightarrow> structJar vm1 sp \<noteq> None \<Longrightarrow> frameExcept sp vm vm2"
  by (auto simp: frameExcept_def frame_def)

lemma frame_fresh:
  "structJar vm sp = None \<Longrightarrow> frameExcept sp (store vm sp d) vm1 \<Longrightarrow> frame vm vm1"
proof -
  assume fresh: "structJar vm sp = None" and f: "frameExcept sp (store vm sp d) vm1"
  { fix n assume n: "structJar vm n \<noteq> None"
    with fresh have "n \<noteq> sp" by auto
    moreover from this n have "structJar (store vm sp d) n \<noteq> None" by (simp add: store_def)
    ultimately have "structJar vm1 n = structJar (store vm sp d) n"
      using f by (simp add: frameExcept_def)
    with \<open>n \<noteq> sp\<close> have "structJar vm1 n = structJar vm n" by (simp add: store_def) }
  moreover from f have "tagName vm1 = tagName vm" by (simp add: frameExcept_def store_def)
  ultimately show ?thesis by (simp add: frame_def)
qed

lemma registration_frame:
  "(registerStructLocked parseExpr ds fuel vm t = Some (vm', r) \<longrightarrow> frame vm vm')"
  "(registerFields parseExpr ds fuel vm sp fs = Some (vm'', r') \<longrightarrow> frameExcept sp vm vm'')"
proof (induction parseExpr ds fuel vm t and parseExpr ds fuel vm sp fs
        arbitrary: vm' r and vm'' r' rule: registerStructLocked_registerFields.induct)
  case (1 parseExpr ds fuel vm t)
  show ?case
  proof
    assume a: "registerStructLocked parseExpr ds fuel vm t = Some (vm', r)"
    show "frame vm vm'"
    proof (cases "getStructType t t")
      case (Inl err)
      with a show ?thesis by (simp add: registerStructLocked.simps frame_def)
    next
      case (Inr b)
      show ?thesis
      proof (cases "structJar vm (TypeString b) \<noteq> None")
        case True
        with a Inr show ?thesis by (simp add: registerStructLocked.simps frame_def)
      next
        case False
        with a Inr obtain n where fuel: "fuel = Suc n"
          by (cases fuel) (simp_all add: registerStructLocked.simps)
        from a Inr False fuel obtain e where
          "registerFields parseExpr ds n (store vm (TypeString b) newStruct) (TypeString b)
             (fieldsOf ds (TypeString b)) = Some (vm', e)"
          by (auto simp: registerStructLocked.simps Let_def split: option.splits)
        with "1.IH" [OF Inr refl False fuel] have
          "frameExcept (TypeString b) (store vm (TypeString b) newStruct) vm'" by blast
        with False show ?thesis by (auto intro: frame_fresh)
      qed
    qed
  qed
next
  case (2 parseExpr ds fuel vm sp)
  show ?case by (simp add: frameExcept_refl)
next
  case (3 parseExpr ds fuel vm sp structField rest)
  show ?case
  proof
    assume a: "registerFields parseExpr ds fuel vm sp (structField # rest) = Some (vm'', r')"
    obtain d1 y where nf: "newField (tagName vm) parseExpr sp (deref vm sp) structField = (d1, y)"
      by (cases "newField (tagName vm) parseExpr sp (deref vm sp) structField")
    show "frameExcept sp vm vm''"
    proof (cases y)
      case (Inl err)
      with a nf show ?thesis by (auto simp: frameExcept_store)
    next
      case (Inr field)
      obtain t ptrDeep where dt: "derefType (Type structField) 0 = (t, ptrDeep)"
        by (cases "derefType (Type structField) 0")
      let ?vm1 = "store vm sp d1"
      have f1: "frameExcept sp vm ?vm1" by (rule frameExcept_store)
      show ?thesis
      proof (cases "Kind t = Struct")
        case True
        show ?thesis
        proof (cases "registerStructLocked parseExpr ds fuel ?vm1 (Type field)")
          case None
          with a nf Inr dt True show ?thesis by simp
        next
          case (Some res)
          obtain vm2 r2 where res: "res = (vm2, r2)" by (cases res)
          from "3.IH"(1) [OF nf [symmetric] Inr refl dt [symmetric] refl True] Some res
          have f2: "frame ?vm1 vm2" by blast
          have sp1: "structJar ?vm1 sp \<noteq> None" by (simp add: store_def)
          from frameExcept_frame [OF f1 f2 sp1] have f3: "frameExcept sp vm vm2" .
          show ?thesis
          proof (cases r2)
            case (Inl err)
            with a nf Inr dt True Some res f3 show ?thesis by simp
          next
            case (Inr sub)
            let ?vm3 = "store vm2 sp (copySubFields (deref vm2 sp) field (deref vm2 sub) ptrDeep)"
            from a nf \<open>y = Inr field\<close> dt True Some res Inr
            have "registerFields parseExpr ds fuel ?vm3 sp rest = Some (vm'', r')" by simp
            with "3.IH"(2) [OF nf [symmetric] \<open>y = Inr field\<close> refl dt [symmetric] refl True
                   Some [unfolded res] refl Inr]
            have "frameExcept sp ?vm3 vm''" by blast
            with f3 frameExcept_store [of sp vm2] show ?thesis
              by (blast intro: frameExcept_trans)
          qed
        qed
      next
        case False
        let ?vm3 = "store ?vm1 sp (d1\<lparr>fields' :=
                     AList.update (Name field) (setGetter (Kind t) ptrDeep field) (fields' d1)\<rparr>)"
        from a nf Inr dt False
        have "registerFields parseExpr ds fuel ?vm3 sp rest = Some (vm'', r')" by simp
        with "3.IH"(3) [OF nf [symmetric] Inr refl dt [symmetric] refl False]
        have "frameExcept sp ?vm3 vm''" by blast
        with f1 frameExcept_store [of sp ?vm1] show ?thesis
          by (blast intro: frameExcept_trans)
      qed
    qed
  qed
qed


lemma registerStructLocked_name:
  assumes "registerStructLocked parseExpr ds fuel vm t = Some (vm', Inr sp)"
  shows "\<exists>b. getStructType t t = Inr b \<and> sp = TypeString b \<and> structJar vm' sp \<noteq> None"
proof (cases "getStructType t t")
  case (Inl err)
  with assms show ?thesis by (simp add: registerStructLocked.simps)
next
  case (Inr b)
  show ?thesis
  proof (cases "structJar vm (TypeString b) \<noteq> None")
    case True
    with assms Inr show ?thesis by (auto simp: registerStructLocked.simps)
  next
    case False
    with assms Inr obtain n where fuel: "fuel = Suc n"
      by (cases fuel) (simp_all add: registerStructLocked.simps)
    from assms Inr False fuel have
      rf: "registerFields parseExpr ds n (store vm (TypeString b) newStruct) (TypeString b)
             (fieldsOf ds (TypeString b)) = Some (vm', None)" and sp: "sp = TypeString b"
      by (auto simp: registerStructLocked.simps Let_def split: option.splits)
    from registration_frame(2) rf have
      "frameExcept (TypeString b) (store vm (TypeString b) newStruct) vm'" by blast
    then have "structJar vm' (TypeString b) \<noteq> None"
      by (simp add: frameExcept_def store_def)
    with Inr sp show ?thesis by simp
  qed
qed

lemma length_filter_le_mono:
  "(\<And>x. x \<in> set xs \<Longrightarrow> P x \<Longrightarrow> Q x) \<Longrightarrow> length (filter P xs) \<le> length (filter Q xs)"
  by (induction xs) auto

lemma length_filter_less_mono:
  "(\<And>x. x \<in> set xs \<Longrightarrow> P x \<Longrightarrow> Q x) \<Longrightarrow> y \<in> set xs \<Longrightarrow> Q y \<Longrightarrow> \<not> P y \<Longrightarrow>
   length (filter P xs) < length (filter Q xs)"
proof (induction xs)
  case Nil
  then show ?case by simp
next
  case (Cons x xs)
  have le: "length (filter P xs) \<le> length (filter Q xs)"
    using Cons.prems(1) by (intro length_filter_le_mono) auto
  show ?case
  proof (cases "y = x")
    case True
    with Cons.prems le show ?thesis by auto
  next
    case False
    with Cons.prems have "y \<in> set xs" by simp
    with Cons.IH Cons.prems have "length (filter P xs) < length (filter Q xs)" by auto
    with Cons.prems(1) [of x] show ?thesis by auto
  qed
qed

lemma unregistered_mono:
  "(\<And>n. structJar vm n \<noteq> None \<Longrightarrow> structJar vm' n \<noteq> None) \<Longrightarrow>
   length (unregistered ds vm') \<le> length (unregistered ds vm)"
  unfolding unregistered_def
proof (rule length_filter_le_mono)
  fix x
  assume a: "\<And>n. structJar vm n \<noteq> None \<Longrightarrow> structJar vm' n \<noteq> None"
    and "structJar vm' x = None"
  with a [of x] show "structJar vm x = None" by blast
qed

lemma unregistered_frame:
  "frame vm vm' \<Longrightarrow> length (unregistered ds vm') \<le> length (unregistered ds vm)"
  by (rule unregistered_mono) (auto simp: frame_def)

lemma unregistered_frameExcept:
  "frameExcept sp vm vm' \<Longrightarrow> length (unregistered ds vm') \<le> length (unregistered ds vm)"
  by (rule unregistered_mono) (auto simp: frameExcept_def)

lemma unregistered_store:
  "length (unregistered ds (store vm n d)) \<le> length (unregistered ds vm)"
  by (rule unregistered_mono) (auto simp: store_def)

lemma unregistered_store_less:
  "structJar vm n = None \<Longrightarrow> n \<in> set (map fst ds) \<Longrightarrow>
   length (unregistered ds (store vm n d)) < length (unregistered ds vm)"
  unfolding unregistered_def
  by (rule length_filter_less_mono [where y = n]) (auto simp: store_def split: if_splits)

lemma fieldsOf_declared: "fieldsOf ds n \<noteq> [] \<Longrightarrow> n \<in> set (map fst ds)"
  by (auto simp: fieldsOf_def split: option.splits dest: map_of_SomeD intro: rev_image_eqI)

lemma registration_returns:
  "length (unregistered ds vm) < fuel \<longrightarrow> registerStructLocked parseExpr ds fuel vm t \<noteq> None"
  "length (unregistered ds vm) < fuel \<or> fs = [] \<longrightarrow> registerFields parseExpr ds fuel vm sp fs \<noteq> None"
proof (induction parseExpr ds fuel vm t and parseExpr ds fuel vm sp fs
        rule: registerStructLocked_registerFields.induct)
  case (1 parseExpr ds fuel vm t)
  show ?case
  proof
    assume u: "length (unregistered ds vm) < fuel"
    show "registerStructLocked parseExpr ds fuel vm t \<noteq> None"
    proof (cases "getStructType t t")
      case (Inl err)
      then show ?thesis by (simp add: registerStructLocked.simps)
    next
      case (Inr b)
      show ?thesis
      proof (cases "structJar vm (TypeString b) \<noteq> None")
        case True
        with Inr show ?thesis by (simp add: registerStructLocked.simps)
      next
        case False
        from u obtain n where fuel: "fuel = Suc n" by (cases fuel) simp_all
        let ?vm0 = "store vm (TypeString b) newStruct"
        have "length (unregistered ds ?vm0) < n \<or> fieldsOf ds (TypeString b) = []"
        proof (cases "fieldsOf ds (TypeString b) = []")
          case True
          then show ?thesis by simp
        next
          case nonempty: False
          from False have "structJar vm (TypeString b) = None" by simp
          from unregistered_store_less [OF this fieldsOf_declared [OF nonempty], of newStruct]
               u fuel
          show ?thesis by simp
        qed
        with "1.IH" [OF Inr refl False fuel]
        have "registerFields parseExpr ds n ?vm0 (TypeString b) (fieldsOf ds (TypeString b)) \<noteq> None"
          by blast
        with Inr False fuel show ?thesis
          by (auto simp: registerStructLocked.simps Let_def split: option.splits)
      qed
    qed
  qed
next
  case (2 parseExpr ds fuel vm sp)
  show ?case by simp
next
  case (3 parseExpr ds fuel vm sp structField rest)
  show ?case
  proof
    assume "length (unregistered ds vm) < fuel \<or> structField # rest = []"
    then have u: "length (unregistered ds vm) < fuel" by simp
    obtain d1 y where nf: "newField (tagName vm) parseExpr sp (deref vm sp) structField = (d1, y)"
      by (cases "newField (tagName vm) parseExpr sp (deref vm sp) structField")
    show "registerFields parseExpr ds fuel vm sp (structField # rest) \<noteq> None"
    proof (cases y)
      case (Inl err)
      with nf show ?thesis by simp
    next
      case (Inr field)
      obtain t ptrDeep where dt: "derefType (Type structField) 0 = (t, ptrDeep)"
        by (cases "derefType (Type structField) 0")
      let ?vm1 = "store vm sp d1"
      from unregistered_store [of ds vm sp d1] u
      have u1: "length (unregistered ds ?vm1) < fuel" by simp
      show ?thesis
      proof (cases "Kind t = Struct")
        case True
        from "3.IH"(1) [OF nf [symmetric] Inr refl dt [symmetric] refl True] u1
        obtain vm2 r2 where res: "registerStructLocked parseExpr ds fuel ?vm1 (Type field) = Some (vm2, r2)"
          by (cases "registerStructLocked parseExpr ds fuel ?vm1 (Type field)") auto
        from registration_frame(1) res have "frame ?vm1 vm2" by blast
        from unregistered_frame [OF this, of ds] u1
        have u2: "length (unregistered ds vm2) < fuel" by simp
        show ?thesis
        proof (cases r2)
          case (Inl err)
          with nf Inr dt True res show ?thesis by simp
        next
          case (Inr sub)
          let ?vm3 = "store vm2 sp (copySubFields (deref vm2 sp) field (deref vm2 sub) ptrDeep)"
          from unregistered_store [of ds vm2 sp] u2
          have "length (unregistered ds ?vm3) < fuel" by (meson le_less_trans)
          with "3.IH"(2) [OF nf [symmetric] \<open>y = Inr field\<close> refl dt [symmetric] refl True
                   res refl Inr]
          have "registerFields parseExpr ds fuel ?vm3 sp rest \<noteq> None" by blast
          with nf \<open>y = Inr field\<close> dt True res Inr show ?thesis by simp
        qed
      next
        case False
        let ?vm3 = "store ?vm1 sp (d1\<lparr>fields' :=
                     AList.update (Name field) (setGetter (Kind t) ptrDeep field) (fields' d1)\<rparr>)"
        from unregistered_store [of ds ?vm1 sp] u1
        have "length (unregistered ds ?vm3) < fuel" by (meson le_less_trans)
        with "3.IH"(3) [OF nf [symmetric] Inr refl dt [symmetric] refl False]
        have "registerFields parseExpr ds fuel ?vm3 sp rest \<noteq> None" by blast
        with nf Inr dt False show ?thesis by simp
      qed
    qed
  qed
qed

lemma registerStructLocked_registered:
  assumes "registerStructLocked parseExpr ds fuel vm t = Some (vm', r)"
    and "getStructType t t = Inr b"
  shows "structJar vm' (TypeString b) \<noteq> None"
proof (cases "structJar vm (TypeString b) \<noteq> None")
  case True
  with assms show ?thesis by (auto simp: registerStructLocked.simps)
next
  case False
  with assms obtain n where fuel: "fuel = Suc n"
    by (cases fuel) (simp_all add: registerStructLocked.simps)
  from assms False fuel obtain e where
    "registerFields parseExpr ds n (store vm (TypeString b) newStruct) (TypeString b)
       (fieldsOf ds (TypeString b)) = Some (vm', e)"
    by (auto simp: registerStructLocked.simps Let_def split: option.splits)
  with registration_frame(2) have
    "frameExcept (TypeString b) (store vm (TypeString b) newStruct) vm'" by blast
  then show ?thesis by (simp add: frameExcept_def store_def)
qed

text \<open>
  More fuel does not change a result: the value of a call that returns within the bound
  is the value of the code.
\<close>

lemma registration_fuel_mono:
  "registerStructLocked parseExpr ds fuel vm t = Some res
     \<longrightarrow> registerStructLocked parseExpr ds (fuel + k) vm t = Some res"
  "registerFields parseExpr ds fuel vm sp fs = Some res'
     \<longrightarrow> registerFields parseExpr ds (fuel + k) vm sp fs = Some res'"
proof (induction parseExpr ds fuel vm t and parseExpr ds fuel vm sp fs
        arbitrary: res and res' rule: registerStructLocked_registerFields.induct)
  case (1 parseExpr ds fuel vm t)
  show ?case
  proof
    assume a: "registerStructLocked parseExpr ds fuel vm t = Some res"
    show "registerStructLocked parseExpr ds (fuel + k) vm t = Some res"
    proof (cases "getStructType t t")
      case (Inl err)
      with a show ?thesis by (simp add: registerStructLocked.simps)
    next
      case (Inr b)
      show ?thesis
      proof (cases "structJar vm (TypeString b) \<noteq> None")
        case True
        with a Inr show ?thesis by (simp add: registerStructLocked.simps)
      next
        case False
        with a Inr obtain n where fuel: "fuel = Suc n"
          by (cases fuel) (simp_all add: registerStructLocked.simps)
        let ?call = "\<lambda>m. registerFields parseExpr ds m (store vm (TypeString b) newStruct)
                          (TypeString b) (fieldsOf ds (TypeString b))"
        from a Inr False fuel obtain x where x: "?call n = Some x"
          by (auto simp: registerStructLocked.simps Let_def split: option.splits)
        with "1.IH" [OF Inr refl False fuel] have "?call (n + k) = Some x" by blast
        with a Inr False fuel x show ?thesis
          by (simp add: registerStructLocked.simps Let_def)
      qed
    qed
  qed
next
  case (2 parseExpr ds fuel vm sp)
  show ?case by simp
next
  case (3 parseExpr ds fuel vm sp structField rest)
  show ?case
  proof
    assume a: "registerFields parseExpr ds fuel vm sp (structField # rest) = Some res'"
    obtain d1 y where nf: "newField (tagName vm) parseExpr sp (deref vm sp) structField = (d1, y)"
      by (cases "newField (tagName vm) parseExpr sp (deref vm sp) structField")
    show "registerFields parseExpr ds (fuel + k) vm sp (structField # rest) = Some res'"
    proof (cases y)
      case (Inl err)
      with a nf show ?thesis by simp
    next
      case (Inr field)
      obtain t ptrDeep where dt: "derefType (Type structField) 0 = (t, ptrDeep)"
        by (cases "derefType (Type structField) 0")
      let ?vm1 = "store vm sp d1"
      show ?thesis
      proof (cases "Kind t = Struct")
        case True
        from a nf Inr dt True obtain vmN r2 where
          res: "registerStructLocked parseExpr ds fuel ?vm1 (Type field) = Some (vmN, r2)"
          by (cases "registerStructLocked parseExpr ds fuel ?vm1 (Type field)") auto
        with "3.IH"(1) [OF nf [symmetric] Inr refl dt [symmetric] refl True]
        have more: "registerStructLocked parseExpr ds (fuel + k) ?vm1 (Type field) = Some (vmN, r2)"
          by blast
        show ?thesis
        proof (cases r2)
          case (Inl err)
          with a nf \<open>y = Inr field\<close> dt True res more show ?thesis by simp
        next
          case (Inr sub)
          let ?vm3 = "store vmN sp (copySubFields (deref vmN sp) field (deref vmN sub) ptrDeep)"
          from a nf \<open>y = Inr field\<close> dt True res Inr
          have "registerFields parseExpr ds fuel ?vm3 sp rest = Some res'" by simp
          with "3.IH"(2) [OF nf [symmetric] \<open>y = Inr field\<close> refl dt [symmetric] refl True
                 res refl Inr]
          have "registerFields parseExpr ds (fuel + k) ?vm3 sp rest = Some res'" by blast
          with nf \<open>y = Inr field\<close> dt True more Inr show ?thesis by simp
        qed
      next
        case False
        let ?vm3 = "store ?vm1 sp (d1\<lparr>fields' :=
                     AList.update (Name field) (setGetter (Kind t) ptrDeep field) (fields' d1)\<rparr>)"
        from a nf Inr dt False
        have "registerFields parseExpr ds fuel ?vm3 sp rest = Some res'" by simp
        with "3.IH"(3) [OF nf [symmetric] Inr refl dt [symmetric] refl False]
        have "registerFields parseExpr ds (fuel + k) ?vm3 sp rest = Some res'" by blast
        with nf Inr dt False show ?thesis by simp
      qed
    qed
  qed
qed

section \<open>Self-referential types\<close>

text \<open>
  C1, as stated, fails: the claim is that registering a type with a pointer field of its
  own type recurses without bound. \<^verbatim>\<open>registerStructLocked\<close> puts the new descriptor into
  \<^verbatim>\<open>structJar\<close> before it visits the fields, so the call for the type of \<open>Next\<close> finds
  it and returns it: the registration of \<open>Node\<close> returns with a call depth of one.
\<close>

theorem self_reference_is_registered:
  "map_option snd (registerStructLocked keepSource nodeDecls 1 (New ''tagexpr'') (StructType ''Node''))
     = Some (Inr ''Node'')"
  by code_simp

text \<open>
  C1, amended: registration returns, for every set of declarations, self-referential or
  not. Each call that goes on to visit fields has first added a type to the registry, so
  the depth of the calls is bounded by the number of declared types not yet registered:
  within that bound the call returns, and a larger bound gives the same result.
\<close>

theorem registration_terminates:
  "length (unregistered ds vm) < fuel \<Longrightarrow>
   registerStructLocked parseExpr ds fuel vm t \<noteq> None
   \<and> registerStructLocked parseExpr ds (fuel + k) vm t = registerStructLocked parseExpr ds fuel vm t"
proof -
  assume "length (unregistered ds vm) < fuel"
  with registration_returns(1) [of ds vm fuel parseExpr t]
  obtain res where "registerStructLocked parseExpr ds fuel vm t = Some res" by blast
  with registration_fuel_mono(1) [of parseExpr ds fuel vm t res k] show ?thesis by simp
qed

theorem registration_terminates_witness:
  "length (unregistered nodeDecls (New ''tagexpr'' :: string VM)) < 2
   \<and> registerStructLocked keepSource nodeDecls 2 (New ''tagexpr'') (StructType ''Node'') \<noteq> None
   \<and> registerStructLocked keepSource nodeDecls (2 + 5) (New ''tagexpr'') (StructType ''Node'')
       = registerStructLocked keepSource nodeDecls 2 (New ''tagexpr'') (StructType ''Node'')"
proof -
  have u: "length (unregistered nodeDecls (New ''tagexpr'' :: string VM)) < 2"
    by (simp add: unregistered_def nodeDecls_def New_def)
  from registration_terminates [where k = 5, OF u] u show ?thesis by blast
qed

section \<open>Registering twice\<close>


lemma seqVM_registered:
  "registerStructLocked keepSource seqDecls 2 (New ''tagexpr'') (StructType ''Seq'')
     = Some (seqVM, Inr ''Seq'')"
proof -
  have "map_option snd (registerStructLocked keepSource seqDecls 2 (New ''tagexpr'') (StructType ''Seq''))
          = Some (Inr ''Seq'')"
    by code_simp
  then show ?thesis by (auto simp: seqVM_def)
qed


section \<open>Run\<close>

text \<open>
  C5, as stated, fails: \<open>Bad\<close> is not registered and the pointer is valid, but \<^verbatim>\<open>Run\<close>
  returns the syntax error that the registration of the type reports.
\<close>

theorem Run_unseen_type_fails:
  "structJar (New ''tagexpr'' :: string VM) ''Bad'' = None
   \<and> outcome (Run keepSource badDecls 1 seqHeap (New ''tagexpr'')
                (Some (PtrTo (StructType ''Bad''), VPtr 0x1000)))
       = Some (Inr (Inl (SyntaxIncorrect ''{'')))"
proof -
  have "structJar (New ''tagexpr'' :: string VM) ''Bad'' = None" by (simp add: New_def)
  moreover have "outcome (Run keepSource badDecls 1 seqHeap (New ''tagexpr'')
                (Some (PtrTo (StructType ''Bad''), VPtr 0x1000)))
       = Some (Inr (Inl (SyntaxIncorrect ''{'')))"
    by code_simp
  ultimately show ?thesis by simp
qed

text \<open>
  C5, amended. \<^verbatim>\<open>Run\<close> returns an error, and leaves the registry alone, for the nil
  interface, for a value that is not a pointer, for a nil pointer and for a pointer to
  something that is not a struct. For a non-nil pointer to a struct of a type that is not
  registered it registers the type (the type is in the registry afterwards, the other
  descriptors are unchanged) and returns the handler for the instance, unless the
  registration reports an error, which \<^verbatim>\<open>Run\<close> then returns.
\<close>

theorem Run_contract:
  "Run parseExpr ds fuel h vm None = Some (Inr (vm, Inl CannotRunNil))
   \<and> (Kind ty \<noteq> Ptr \<longrightarrow>
        Run parseExpr ds fuel h vm (Some (ty, x))
          = Some (Inr (vm, Inl (NotStructurePointer (TypeString ty)))))
   \<and> (Kind t \<noteq> Struct \<or> a = 0 \<longrightarrow>
        Run parseExpr ds fuel h vm (Some (PtrTo t, VPtr a))
          = Some (Inr (vm, Inl (NotStructurePointer (TypeString (PtrTo t))))))
   \<and> (a \<noteq> 0 \<and> structJar vm nm = None \<and> length (unregistered ds vm) < fuel \<longrightarrow>
        (\<exists>vm'. structJar vm' nm \<noteq> None \<and> frame vm vm'
           \<and> (Run parseExpr ds fuel h vm (Some (PtrTo (StructType nm), VPtr a))
                  = Some (Inr (vm', Inr (newTagExpr nm a)))
                \<and> registerStructLocked parseExpr ds fuel vm (StructType nm) = Some (vm', Inr nm)
               \<or> (\<exists>err. Run parseExpr ds fuel h vm (Some (PtrTo (StructType nm), VPtr a))
                            = Some (Inr (vm', Inl err))
                     \<and> registerStructLocked parseExpr ds fuel vm (StructType nm)
                            = Some (vm', Inl err)))))"
proof (intro conjI impI)
  show "Run parseExpr ds fuel h vm None = Some (Inr (vm, Inl CannotRunNil))"
    by (simp add: Run_def)
  show "Run parseExpr ds fuel h vm (Some (ty, x))
          = Some (Inr (vm, Inl (NotStructurePointer (TypeString ty))))" if "Kind ty \<noteq> Ptr"
    using that by (simp add: Run_def)
  show "Run parseExpr ds fuel h vm (Some (PtrTo t, VPtr a))
          = Some (Inr (vm, Inl (NotStructurePointer (TypeString (PtrTo t)))))"
    if "Kind t \<noteq> Struct \<or> a = 0"
    using that by (auto simp: Run_def bindP_def)
  show "\<exists>vm'. structJar vm' nm \<noteq> None \<and> frame vm vm'
           \<and> (Run parseExpr ds fuel h vm (Some (PtrTo (StructType nm), VPtr a))
                  = Some (Inr (vm', Inr (newTagExpr nm a)))
                \<and> registerStructLocked parseExpr ds fuel vm (StructType nm) = Some (vm', Inr nm)
               \<or> (\<exists>err. Run parseExpr ds fuel h vm (Some (PtrTo (StructType nm), VPtr a))
                            = Some (Inr (vm', Inl err))
                     \<and> registerStructLocked parseExpr ds fuel vm (StructType nm)
                            = Some (vm', Inl err)))"
    if a: "a \<noteq> 0 \<and> structJar vm nm = None \<and> length (unregistered ds vm) < fuel"
  proof -
    from a registration_returns(1) [of ds vm fuel parseExpr "StructType nm"]
    obtain vm' r where reg: "registerStructLocked parseExpr ds fuel vm (StructType nm) = Some (vm', r)"
      by (cases "registerStructLocked parseExpr ds fuel vm (StructType nm)") auto
    have gst: "getStructType (StructType nm) (StructType nm) = Inr (StructType nm)" by simp
    from registerStructLocked_registered [OF reg gst] have jar: "structJar vm' nm \<noteq> None" by simp
    from registration_frame(1) reg have fr: "frame vm vm'" by blast
    show ?thesis
    proof (cases r)
      case (Inl err)
      with reg a have "Run parseExpr ds fuel h vm (Some (PtrTo (StructType nm), VPtr a))
                            = Some (Inr (vm', Inl err))"
        by (simp add: Run_def bindP_def)
      with reg Inl jar fr show ?thesis by blast
    next
      case (Inr sp)
      with registerStructLocked_name [of parseExpr ds fuel vm "StructType nm" vm' sp] reg
      have sp: "sp = nm" by auto
      with reg Inr a have "Run parseExpr ds fuel h vm (Some (PtrTo (StructType nm), VPtr a))
                  = Some (Inr (vm', Inr (newTagExpr nm a)))"
        by (simp add: Run_def bindP_def)
      with reg Inr sp jar fr show ?thesis by blast
    qed
  qed
qed

theorem Run_contract_witness:
  "Run keepSource seqDecls 2 seqHeap (New ''tagexpr'') None
      = Some (Inr (New ''tagexpr'', Inl CannotRunNil))
   \<and> Run keepSource seqDecls 2 seqHeap (New ''tagexpr'') (Some (TBool, VBool True))
      = Some (Inr (New ''tagexpr'', Inl (NotStructurePointer ''bool'')))
   \<and> Run keepSource seqDecls 2 seqHeap (New ''tagexpr'') (Some (PtrTo (StructType ''Seq''), VPtr 0))
      = Some (Inr (New ''tagexpr'', Inl (NotStructurePointer ''*Seq'')))
   \<and> Run keepSource seqDecls 2 seqHeap (New ''tagexpr'') (Some (PtrTo (StructType ''Seq''), VPtr 0x1000))
      = Some (Inr (seqVM, Inr (newTagExpr ''Seq'' 0x1000)))
   \<and> structJar seqVM ''Seq'' \<noteq> None"
proof -
  have u: "(0x1000 :: uintptr) \<noteq> 0 \<and> structJar (New ''tagexpr'' :: string VM) ''Seq'' = None
           \<and> length (unregistered seqDecls (New ''tagexpr'' :: string VM)) < 2"
    by (simp add: unregistered_def seqDecls_def New_def)
  have k: "Kind TBool \<noteq> Ptr" by simp
  have z: "Kind (StructType ''Seq'') \<noteq> Struct \<or> (0 :: uintptr) = 0" by simp
  note c = Run_contract [where parseExpr = keepSource and ds = seqDecls and fuel = 2
              and h = seqHeap and vm = "New ''tagexpr''" and ty = TBool and x = "VBool True"
              and t = "StructType ''Seq''" and a = "0x1000" and nm = "''Seq''"]
  note c0 = Run_contract [where parseExpr = keepSource and ds = seqDecls and fuel = 2
              and h = seqHeap and vm = "New ''tagexpr''" and ty = TBool and x = "VBool True"
              and t = "StructType ''Seq''" and a = 0 and nm = "''Seq''"]
  from c0 have p3: "Run keepSource seqDecls 2 seqHeap (New ''tagexpr'') (Some (PtrTo (StructType ''Seq''), VPtr 0))
      = Some (Inr (New ''tagexpr'', Inl (NotStructurePointer ''*Seq'')))" by simp
  from c u seqVM_registered have p4:
    "Run keepSource seqDecls 2 seqHeap (New ''tagexpr'') (Some (PtrTo (StructType ''Seq''), VPtr 0x1000))
      = Some (Inr (seqVM, Inr (newTagExpr ''Seq'' 0x1000))) \<and> structJar seqVM ''Seq'' \<noteq> None"
    by auto
  from c k have p12: "Run keepSource seqDecls 2 seqHeap (New ''tagexpr'') None
      = Some (Inr (New ''tagexpr'', Inl CannotRunNil))
   \<and> Run keepSource seqDecls 2 seqHeap (New ''tagexpr'') (Some (TBool, VBool True))
      = Some (Inr (New ''tagexpr'', Inl (NotStructurePointer ''bool'')))" by simp
  from p12 p3 p4 show ?thesis by simp
qed

section \<open>Selectors of a descriptor\<close>

lemma owner_at: "plainName n \<Longrightarrow> owner (n @ ''@'' @ x) = n"
  by (simp add: owner_def plainName_def list_all_iff special_def takeWhile_append2)

lemma owner_dot: "plainName n \<Longrightarrow> owner (n @ ''.'' @ x) = n"
  by (simp add: owner_def plainName_def list_all_iff special_def takeWhile_append2)

lemma owner_plain: "plainName n \<Longrightarrow> owner n = n"
  by (simp add: owner_def plainName_def list_all_iff)

lemma at_not_dot: "n @ ''@'' @ x \<noteq> n @ ''.'' @ k"
  by simp

lemma wfDesc_newStruct: "wfDesc newStruct"
  by (simp add: wfDesc_def newStruct_def)

lemma wfDesc_add:
  assumes "wfDesc d" and "map_of (exprs d) sel = None"
  shows "wfDesc (d\<lparr>exprs := AList.update sel x (exprs d), selectorList := selectorList d @ [sel]\<rparr>)"
proof -
  from assms(2) have "sel \<notin> fst ` set (exprs d)" by (simp add: map_of_eq_None_iff)
  with assms(1) show ?thesis
    by (auto simp: wfDesc_def AList.distinct_update AList.dom_update)
qed

text \<open>The fold of the two loops of \<^verbatim>\<open>copySubFields\<close> over an association list.\<close>

lemma fold_update_other:
  "key \<notin> p ` fst ` set xs \<Longrightarrow>
   map_of (fold (\<lambda>(k, v) al. AList.update (p k) (g v) al) xs al) key = map_of al key"
proof (induction xs arbitrary: al)
  case Nil
  then show ?case by simp
next
  case (Cons x xs)
  obtain k v where x: "x = (k, v)" by (cases x)
  from Cons.prems x have "key \<noteq> p k" and "key \<notin> p ` fst ` set xs" by auto
  with Cons.IH [of "AList.update (p k) (g v) al"] x show ?case
    by (simp add: AList.update_conv')
qed

lemma fold_update_hit:
  "distinct (map fst xs) \<Longrightarrow> inj p \<Longrightarrow> map_of xs k = Some v \<Longrightarrow>
   map_of (fold (\<lambda>(k, v) al. AList.update (p k) (g v) al) xs al) (p k) = Some (g v)"
proof (induction xs arbitrary: al)
  case Nil
  then show ?case by simp
next
  case (Cons x xs)
  obtain k' v' where x: "x = (k', v')" by (cases x)
  show ?case
  proof (cases "k' = k")
    case True
    with Cons.prems x have v: "v' = v" and notin: "k \<notin> fst ` set xs" by auto
    from notin Cons.prems(2) have "p k \<notin> p ` fst ` set xs" by (auto dest: injD)
    from fold_update_other [OF this, of g "AList.update (p k) (g v) al"] x True v
    show ?thesis by (simp add: AList.update_conv')
  next
    case False
    with Cons.prems x have "map_of xs k = Some v" and "distinct (map fst xs)" by auto
    with Cons.IH [of "AList.update (p k') (g v') al"] Cons.prems(2) x show ?thesis by simp
  qed
qed

lemma fold_update_dom:
  "fst ` set (fold (\<lambda>(k, v) al. AList.update (p k) (g v) al) xs al)
     = fst ` set al \<union> p ` fst ` set xs"
proof (induction xs arbitrary: al)
  case Nil
  then show ?case by simp
next
  case (Cons x xs)
  obtain k v where x: "x = (k, v)" by (cases x)
  with Cons.IH [of "AList.update (p k) (g v) al"] show ?case
    by (auto simp: AList.dom_update)
qed

lemma fold_update_distinct:
  "distinct (map fst al) \<Longrightarrow>
   distinct (map fst (fold (\<lambda>(k, v) al. AList.update (p k) (g v) al) xs al))"
proof (induction xs arbitrary: al)
  case Nil
  then show ?case by simp
next
  case (Cons x xs)
  obtain k v where x: "x = (k, v)" by (cases x)
  with Cons.IH [of "AList.update (p k) (g v) al"] Cons.prems show ?case
    by (simp add: AList.distinct_update)
qed

text \<open>The components of the descriptor after the two loops.\<close>

lemma fold_exprs_step:
  "fields' (fold (\<lambda>(k, v) d. d\<lparr>exprs := E k v d, selectorList := S k v d\<rparr>) xs d) = fields' d"
  "exprs (fold (\<lambda>(k, v) d. d\<lparr>exprs := AList.update (p k) (g v) (exprs d),
                               selectorList := S k v d\<rparr>) xs d)
     = fold (\<lambda>(k, v) al. AList.update (p k) (g v) al) xs (exprs d)"
  "selectorList (fold (\<lambda>(k, v) d. d\<lparr>exprs := E k v d, selectorList := selectorList d @ [p k]\<rparr>) xs d)
     = selectorList d @ map p (map fst xs)"
  by (induction xs arbitrary: d) auto

lemma fold_fields_step:
  "fields' (fold (\<lambda>(k, v) d. d\<lparr>fields' := AList.update (p k) (g v) (fields' d)\<rparr>) xs d)
     = fold (\<lambda>(k, v) al. AList.update (p k) (g v) al) xs (fields' d)"
  "exprs (fold (\<lambda>(k, v) d. d\<lparr>fields' := G k v d\<rparr>) xs d) = exprs d"
  "selectorList (fold (\<lambda>(k, v) d. d\<lparr>fields' := G k v d\<rparr>) xs d) = selectorList d"
  by (induction xs arbitrary: d) auto

lemma copySubFields_fields:
  "fields' (copySubFields d field sub ptrDeep)
     = fold (\<lambda>(k, v) al. AList.update (Name field @ ''.'' @ k) (copySubField field ptrDeep v) al)
         (fields' sub) (fields' d)"
  by (simp add: copySubFields_def Let_def fold_exprs_step(1) fold_fields_step(1))

lemma copySubFields_exprs:
  "exprs (copySubFields d field sub ptrDeep)
     = fold (\<lambda>(k, v) al. AList.update (Name field @ ''.'' @ k) (id v) al) (exprs sub) (exprs d)"
  by (simp add: copySubFields_def Let_def fold_exprs_step(2) [where g = id, simplified] fold_fields_step(2))

lemma copySubFields_selectorList:
  "selectorList (copySubFields d field sub ptrDeep)
     = selectorList d @ map (\<lambda>k. Name field @ ''.'' @ k) (map fst (exprs sub))"
  by (simp add: copySubFields_def Let_def fold_exprs_step(3) fold_fields_step(3))

lemma inj_prefix: "inj (\<lambda>k. n @ ''.'' @ (k :: string))"
  by (rule injI) simp

text \<open>
  The order in which \<^verbatim>\<open>copySubFields\<close> ranges over the maps of \<open>sub\<close> does not change
  the maps of the result, nor which selectors its list holds: only the order of the
  selectors it appends.
\<close>

lemma fold_update_order:
  assumes "distinct (map fst xs)" and "distinct (map fst ys)" and "set ys = set xs" and "inj p"
  shows "map_of (fold (\<lambda>(k, v) al. AList.update (p k) (g v) al) ys al)
           = map_of (fold (\<lambda>(k, v) al. AList.update (p k) (g v) al) xs al)"
proof (rule ext)
  fix key
  show "map_of (fold (\<lambda>(k, v) al. AList.update (p k) (g v) al) ys al) key
          = map_of (fold (\<lambda>(k, v) al. AList.update (p k) (g v) al) xs al) key"
  proof (cases "key \<in> p ` fst ` set xs")
    case True
    then obtain k v where kv: "(k, v) \<in> set xs" and key: "key = p k" by auto
    from kv assms(1) have "map_of xs k = Some v" by simp
    moreover from kv assms(2,3) have "map_of ys k = Some v" by simp
    ultimately show ?thesis
      using fold_update_hit [OF assms(1) assms(4), of k v g al]
            fold_update_hit [OF assms(2) assms(4), of k v g al] key by simp
  next
    case False
    with assms(3) have "key \<notin> p ` fst ` set ys" by simp
    from fold_update_other [OF this, of g al] fold_update_other [OF False, of g al]
    show ?thesis by simp
  qed
qed

lemma copySubFields_order:
  assumes "distinct (map fst (fields' sub))" and "distinct (map fst (exprs sub))"
    and "distinct (map fst (fields' sub'))" and "distinct (map fst (exprs sub'))"
    and "set (fields' sub') = set (fields' sub)" and "set (exprs sub') = set (exprs sub)"
  shows "map_of (fields' (copySubFields d field sub' ptrDeep))
           = map_of (fields' (copySubFields d field sub ptrDeep))"
    and "map_of (exprs (copySubFields d field sub' ptrDeep))
           = map_of (exprs (copySubFields d field sub ptrDeep))"
    and "set (selectorList (copySubFields d field sub' ptrDeep))
           = set (selectorList (copySubFields d field sub ptrDeep))"
    and "length (selectorList (copySubFields d field sub' ptrDeep))
           = length (selectorList (copySubFields d field sub ptrDeep))"
proof -
  show "map_of (fields' (copySubFields d field sub' ptrDeep))
           = map_of (fields' (copySubFields d field sub ptrDeep))"
    unfolding copySubFields_fields
    by (rule fold_update_order [OF assms(1,3,5) inj_prefix])
  show "map_of (exprs (copySubFields d field sub' ptrDeep))
           = map_of (exprs (copySubFields d field sub ptrDeep))"
    unfolding copySubFields_exprs
    by (rule fold_update_order [OF assms(2,4,6) inj_prefix])
  from assms(6) show "set (selectorList (copySubFields d field sub' ptrDeep))
           = set (selectorList (copySubFields d field sub ptrDeep))"
    by (simp add: copySubFields_selectorList image_image)
  from assms(2,4,6) have "length (exprs sub') = length (exprs sub)"
    by (metis distinct_card distinct_map length_map)
  then show "length (selectorList (copySubFields d field sub' ptrDeep))
           = length (selectorList (copySubFields d field sub ptrDeep))"
    by (simp add: copySubFields_selectorList)
qed

lemma wfDesc_copySubFields:
  assumes "wfDesc d" and "distinct (map fst (exprs sub))"
    and "\<And>k. Name field @ ''.'' @ k \<notin> set (selectorList d)"
  shows "wfDesc (copySubFields d field sub ptrDeep)"
proof -
  let ?p = "\<lambda>k. Name field @ ''.'' @ (k :: string)"
  have "distinct (map ?p (map fst (exprs sub)))"
    using assms(2) inj_prefix [of "Name field"] by (simp add: distinct_map inj_on_def)
  moreover have "set (selectorList d) \<inter> set (map ?p (map fst (exprs sub))) = {}"
    using assms(3) by auto
  ultimately have "distinct (selectorList (copySubFields d field sub ptrDeep))"
    using assms(1) by (simp add: copySubFields_selectorList wfDesc_def)
  moreover have "distinct (map fst (exprs (copySubFields d field sub ptrDeep)))"
    using assms(1) by (simp add: copySubFields_exprs fold_update_distinct wfDesc_def)
  moreover have "distinct (map fst (fields' (copySubFields d field sub ptrDeep)))"
    using assms(1) by (simp add: copySubFields_fields fold_update_distinct wfDesc_def)
  moreover have "set (selectorList (copySubFields d field sub ptrDeep))
       = fst ` set (exprs (copySubFields d field sub ptrDeep))"
    using assms(1)
    by (simp add: copySubFields_selectorList copySubFields_exprs fold_update_dom wfDesc_def image_image)
  ultimately show ?thesis by (simp add: wfDesc_def)
qed

lemma addsFor_refl: "addsFor nm d d"
  by (simp add: addsFor_def)

lemma addsFor_trans: "addsFor nm d d1 \<Longrightarrow> addsFor nm d1 d2 \<Longrightarrow> addsFor nm d d2"
  by (auto simp: addsFor_def)

lemma addsFor_step:
  "take (Suc (length nm)) sel = nm @ ''@'' \<Longrightarrow>
   addsFor nm d (d\<lparr>exprs := AList.update sel x (exprs d), selectorList := selectorList d @ [sel]\<rparr>)"
  by (auto simp: addsFor_def AList.update_conv')

lemma selector_prefix:
  "take (Suc (length nm)) (if x = ''@'' then nm @ x else nm @ ''@'' @ x) = nm @ ''@''"
  by simp

lemma parseExprsLoop_inv:
  "parseExprsLoop parseExpr raw f d tag = (d', e) \<Longrightarrow> wfDesc d \<Longrightarrow>
   wfDesc d' \<and> addsFor (Name f) d d'"
proof (induction parseExpr raw f d tag arbitrary: d' e rule: parseExprsLoop.induct)
  case (1 parseExpr raw f d tag)
  note res = "1.prems"(1) [unfolded parseExprsLoop.simps [of parseExpr raw f d tag]]
  show ?case
  proof (cases "readPairedSymbol tag CHR ''{'' CHR ''}''")
    case None
    with res "1.prems"(2) show ?thesis by (auto simp: addsFor_refl)
  next
    case (Some x2)
    obtain subtag tag1 where x2: "x2 = (subtag, tag1)" by (cases x2)
    let ?idx = "strIndex subtag '':''"
    let ?n = "TrimSpace (take (nat ?idx) subtag)"
    let ?sel = "if ?n = ''@'' then Name f @ ?n else Name f @ ''@'' @ ?n"
    let ?ex = "TrimSpace (drop (nat ?idx + 1) subtag)"
    show ?thesis
    proof (cases "0 < ?idx")
      case False
      with res Some x2 "1.prems"(2) show ?thesis by (auto simp: addsFor_refl Let_def)
    next
      case pos: True
      show ?thesis
      proof (cases "?n = []")
        case True
        with res Some x2 pos have "parseExprsLoop parseExpr raw f d tag1 = (d', e)"
          by (simp add: Let_def)
        from "1.IH"(1) [OF Some x2 [symmetric] refl pos refl True this "1.prems"(2)]
        show ?thesis .
      next
        case nonempty: False
        show ?thesis
        proof (cases "map_of (exprs d) ?sel \<noteq> None")
          case True
          with res Some x2 pos nonempty "1.prems"(2) show ?thesis
            by (auto simp: addsFor_refl Let_def)
        next
          case fresh: False
          show ?thesis
          proof (cases "?ex = []")
            case True
            with res Some x2 pos nonempty fresh "1.prems"(2) show ?thesis
              by (auto simp: addsFor_refl Let_def)
          next
            case ex: False
            show ?thesis
            proof (cases "parseExpr ?ex")
              case (Inl err)
              with res Some x2 pos nonempty fresh ex "1.prems"(2) show ?thesis
                by (auto simp: addsFor_refl Let_def)
            next
              case (Inr expr)
              let ?d1 = "d\<lparr>exprs := AList.update ?sel expr (exprs d),
                           selectorList := selectorList d @ [?sel]\<rparr>"
              from fresh have none: "map_of (exprs d) ?sel = None" by simp
              have wf1: "wfDesc ?d1" by (rule wfDesc_add [OF "1.prems"(2) none])
              have a1: "addsFor (Name f) d ?d1"
                by (rule addsFor_step) (rule selector_prefix)
              show ?thesis
              proof (cases "trimLeftSpace tag1 = []")
                case True
                with res Some x2 pos nonempty fresh ex Inr have "d' = ?d1"
                  by (simp add: Let_def)
                with wf1 a1 show ?thesis by simp
              next
                case False
                with res Some x2 pos nonempty fresh ex Inr
                have "parseExprsLoop parseExpr raw f ?d1 (trimLeftSpace tag1) = (d', e)"
                  by (simp add: Let_def)
                from "1.IH"(2) [OF Some x2 [symmetric] refl pos refl nonempty refl fresh refl ex
                       Inr refl refl False this wf1]
                have "wfDesc d' \<and> addsFor (Name f) ?d1 d'" .
                with a1 show ?thesis by (blast intro: addsFor_trans)
              qed
            qed
          qed
        qed
      qed
    qed
  qed
qed

lemma parseExprs_inv:
  assumes "parseExprs parseExpr f d tag = (d', e)" and "wfDesc d"
    and "Name f @ ''@'' \<notin> set (selectorList d)"
  shows "wfDesc d' \<and> addsFor (Name f) d d'"
proof (cases "TrimSpace tag = []")
  case True
  with assms show ?thesis by (simp add: parseExprs_def addsFor_refl)
next
  case False
  show ?thesis
  proof (cases "hd (TrimSpace tag) \<noteq> CHR ''{''")
    case True
    show ?thesis
    proof (cases "parseExpr (TrimSpace tag)")
      case (Inl err)
      with assms False True show ?thesis by (simp add: parseExprs_def addsFor_refl)
    next
      case (Inr expr)
      from assms(2,3) have "map_of (exprs d) (Name f @ ''@'') = None"
        by (simp add: wfDesc_def map_of_eq_None_iff)
      from wfDesc_add [OF assms(2) this, of expr] addsFor_step [of "Name f" "Name f @ ''@''" d expr]
           assms(1) False True Inr
      show ?thesis by (auto simp: parseExprs_def Let_def)
    qed
  next
    case brace: False
    with assms False have "parseExprsLoop parseExpr tag f d (TrimSpace tag) = (d', e)"
      by (simp add: parseExprs_def)
    from parseExprsLoop_inv [OF this assms(2)] show ?thesis .
  qed
qed

lemma wfDesc_fields_update:
  "wfDesc d \<Longrightarrow> wfDesc (d\<lparr>fields' := AList.update k v (fields' d)\<rparr>)"
  by (simp add: wfDesc_def AList.distinct_update)

lemma newField_inv:
  assumes "newField tn parseExpr sp d sf = (d', r)" and "wfDesc d"
    and "Name sf @ ''@'' \<notin> set (selectorList d)"
  shows "wfDesc d'"
    and "\<exists>new. selectorList d' = selectorList d @ new
                \<and> list_all (\<lambda>sel. take (Suc (length (Name sf))) sel = Name sf @ ''@'') new"
    and "take (Suc (length (Name sf))) key \<noteq> Name sf @ ''@''
           \<Longrightarrow> map_of (exprs d') key = map_of (exprs d) key"
    and "key \<noteq> Name sf \<Longrightarrow> map_of (fields' d') key = map_of (fields' d) key"
    and "r = Inr f \<Longrightarrow> Name f = Name sf \<and> Type f = Type sf \<and> Offset f = Offset sf
                      \<and> valueGetter f = None \<and> map_of (fields' d') (Name sf) = Some f"
proof -
  let ?f = "\<lparr>Name = Name sf, Type = Type sf, Tag = Tag sf, Offset = Offset sf,
             host = sp, valueGetter = None\<rparr>"
  obtain d1 e where p: "parseExprs parseExpr ?f d (Tag_Get (Tag sf) tn) = (d1, e)"
    by (cases "parseExprs parseExpr ?f d (Tag_Get (Tag sf) tn)")
  from parseExprs_inv [OF p assms(2)] assms(3)
  have wf1: "wfDesc d1" and a1: "addsFor (Name sf) d d1" by simp_all
  from assms(1) p have d': "d' = d1 \<or> d' = d1\<lparr>fields' := AList.update (Name sf) ?f (fields' d1)\<rparr>"
    by (auto simp: newField_def Let_def split: option.splits)
  from d' wf1 show "wfDesc d'" by (auto simp: wfDesc_fields_update)
  from d' a1 show "\<exists>new. selectorList d' = selectorList d @ new
                \<and> list_all (\<lambda>sel. take (Suc (length (Name sf))) sel = Name sf @ ''@'') new"
    by (auto simp: addsFor_def)
  from d' a1 show "map_of (exprs d') key = map_of (exprs d) key"
    if "take (Suc (length (Name sf))) key \<noteq> Name sf @ ''@''"
    using that by (auto simp: addsFor_def)
  from d' a1 show "map_of (fields' d') key = map_of (fields' d) key" if "key \<noteq> Name sf"
    using that by (auto simp: addsFor_def AList.update_conv')
  from assms(1) p show "Name f = Name sf \<and> Type f = Type sf \<and> Offset f = Offset sf
                      \<and> valueGetter f = None \<and> map_of (fields' d') (Name sf) = Some f"
    if "r = Inr f"
    using that by (auto simp: newField_def Let_def AList.update_conv' split: option.splits)
qed

lemma wfFields_fieldsOf: "wfDecls ds \<Longrightarrow> wfFields (fieldsOf ds n)"
  by (auto simp: wfDecls_def fieldsOf_def wfFields_def list_all_iff split: option.splits
           dest!: map_of_SomeD)

lemma wfDesc_deref: "allWf vm \<Longrightarrow> wfDesc (deref vm sp)"
  by (auto simp: allWf_def deref_def wfDesc_newStruct split: option.splits)

lemma allWf_store: "allWf vm \<Longrightarrow> wfDesc d \<Longrightarrow> allWf (store vm sp d)"
  by (auto simp: allWf_def store_def)

lemma deref_store: "deref (store vm sp d) sp = d"
  by (simp add: deref_def store_def)

lemma owner_prefixed:
  "plainName nm \<Longrightarrow> take (Suc (length nm)) sel = nm @ ''@'' \<Longrightarrow> owner sel = nm"
proof -
  assume p: "plainName nm" and t: "take (Suc (length nm)) sel = nm @ ''@''"
  have "sel = take (Suc (length nm)) sel @ drop (Suc (length nm)) sel" by simp
  with t have "sel = nm @ ''@'' @ drop (Suc (length nm)) sel" by simp
  with owner_at [OF p, of "drop (Suc (length nm)) sel"] show ?thesis by simp
qed

lemma notOwned_at: "plainName nm \<Longrightarrow> notOwned nm d \<Longrightarrow> nm @ ''@'' \<notin> set (selectorList d)"
  using owner_at [of nm "[]"] by (auto simp: notOwned_def list_all_iff)

lemma notOwned_dot: "plainName nm \<Longrightarrow> notOwned nm d \<Longrightarrow> nm @ ''.'' @ k \<notin> set (selectorList d)"
  using owner_dot [of nm k] by (auto simp: notOwned_def list_all_iff)

lemma notOwned_append:
  "notOwned g d \<Longrightarrow> selectorList d' = selectorList d @ new \<Longrightarrow>
   list_all (\<lambda>sel. owner sel \<noteq> g) new \<Longrightarrow> notOwned g d'"
  by (simp add: notOwned_def)

text \<open>The steps of the loop of \<^verbatim>\<open>registerStructLocked\<close> for one field.\<close>

lemma field_step:
  assumes nf: "newField tn parseExpr sp d sf = (d1, r)" and wf: "wfDesc d"
    and plain: "plainName (Name sf)" and own: "notOwned (Name sf) d"
  shows "wfDesc d1"
    and "\<And>k. Name sf @ ''.'' @ k \<notin> set (selectorList d1)"
    and "\<And>g. plainName g \<Longrightarrow> g \<noteq> Name sf \<Longrightarrow> notOwned g d \<Longrightarrow> notOwned g d1"
proof -
  note inv = newField_inv [OF nf wf notOwned_at [OF plain own]]
  show "wfDesc d1" by (rule inv(1))
  from inv(2) obtain new where new: "selectorList d1 = selectorList d @ new"
    and pre: "list_all (\<lambda>sel. take (Suc (length (Name sf))) sel = Name sf @ ''@'') new" by blast
  show "Name sf @ ''.'' @ k \<notin> set (selectorList d1)" for k
  proof
    assume "Name sf @ ''.'' @ k \<in> set (selectorList d1)"
    with new notOwned_dot [OF plain own, of k] have "Name sf @ ''.'' @ k \<in> set new" by simp
    with pre have "take (Suc (length (Name sf))) (Name sf @ ''.'' @ k) = Name sf @ ''@''"
      unfolding list_all_iff by blast
    then show False by simp
  qed
  show "notOwned g d1" if "plainName g" "g \<noteq> Name sf" "notOwned g d" for g
  proof (rule notOwned_append [OF that(3) new])
    from pre owner_prefixed [OF plain] that(2) show "list_all (\<lambda>sel. owner sel \<noteq> g) new"
      by (auto simp: list_all_iff)
  qed
qed

lemma flatten_step:
  assumes wf: "wfDesc d1" and sub: "wfDesc sub" and plain: "plainName (Name field)"
    and fresh: "\<And>k. Name field @ ''.'' @ k \<notin> set (selectorList d1)"
  shows "wfDesc (copySubFields d1 field sub ptrDeep)"
    and "\<And>g. g \<noteq> Name field \<Longrightarrow> notOwned g d1 \<Longrightarrow> notOwned g (copySubFields d1 field sub ptrDeep)"
proof -
  from sub have "distinct (map fst (exprs sub))" by (simp add: wfDesc_def)
  from wfDesc_copySubFields [OF wf this fresh] show "wfDesc (copySubFields d1 field sub ptrDeep)" .
  show "notOwned g (copySubFields d1 field sub ptrDeep)" if "g \<noteq> Name field" "notOwned g d1" for g
    using that owner_dot [OF plain]
    by (auto simp: notOwned_def copySubFields_selectorList list_all_iff)
qed

lemma notOwned_newStruct: "notOwned g newStruct"
  by (simp add: notOwned_def newStruct_def)

lemma frame_deref: "frame vm vm' \<Longrightarrow> structJar vm sp \<noteq> None \<Longrightarrow> deref vm' sp = deref vm sp"
  by (simp add: frame_def deref_def)

lemma registration_wf:
  "allWf vm \<longrightarrow> wfDecls ds \<longrightarrow> registerStructLocked parseExpr ds fuel vm t = Some (vm', r)
     \<longrightarrow> allWf vm'"
  "allWf vm \<longrightarrow> wfDecls ds \<longrightarrow> wfFields fs
     \<longrightarrow> list_all (\<lambda>f. notOwned (Name f) (deref vm sp)) fs
     \<longrightarrow> registerFields parseExpr ds fuel vm sp fs = Some (vm'', r') \<longrightarrow> allWf vm''"
proof (induction parseExpr ds fuel vm t and parseExpr ds fuel vm sp fs
        arbitrary: vm' r and vm'' r' rule: registerStructLocked_registerFields.induct)
  case (1 parseExpr ds fuel vm t)
  show ?case
  proof (intro impI)
    assume wf: "allWf vm" and ds: "wfDecls ds"
      and a: "registerStructLocked parseExpr ds fuel vm t = Some (vm', r)"
    show "allWf vm'"
    proof (cases "getStructType t t")
      case (Inl err)
      with a wf show ?thesis by (simp add: registerStructLocked.simps)
    next
      case (Inr b)
      show ?thesis
      proof (cases "structJar vm (TypeString b) \<noteq> None")
        case True
        with a Inr wf show ?thesis by (simp add: registerStructLocked.simps)
      next
        case False
        with a Inr obtain n where fuel: "fuel = Suc n"
          by (cases fuel) (simp_all add: registerStructLocked.simps)
        let ?vm0 = "store vm (TypeString b) newStruct"
        from a Inr False fuel obtain e where rf:
          "registerFields parseExpr ds n ?vm0 (TypeString b) (fieldsOf ds (TypeString b)) = Some (vm', e)"
          by (auto simp: registerStructLocked.simps Let_def split: option.splits)
        have "allWf ?vm0" by (rule allWf_store [OF wf wfDesc_newStruct])
        moreover have "wfFields (fieldsOf ds (TypeString b))" by (rule wfFields_fieldsOf [OF ds])
        moreover have "list_all (\<lambda>f. notOwned (Name f) (deref ?vm0 (TypeString b)))
                         (fieldsOf ds (TypeString b))"
          by (simp add: deref_store notOwned_newStruct list_all_iff)
        ultimately show ?thesis using "1.IH" [OF Inr refl False fuel] ds rf by blast
      qed
    qed
  qed
next
  case (2 parseExpr ds fuel vm sp)
  show ?case by auto
next
  case (3 parseExpr ds fuel vm sp structField rest)
  show ?case
  proof (intro impI)
    assume wf: "allWf vm" and ds: "wfDecls ds" and fs: "wfFields (structField # rest)"
      and own: "list_all (\<lambda>f. notOwned (Name f) (deref vm sp)) (structField # rest)"
      and a: "registerFields parseExpr ds fuel vm sp (structField # rest) = Some (vm'', r')"
    obtain d1 y where nf: "newField (tagName vm) parseExpr sp (deref vm sp) structField = (d1, y)"
      by (cases "newField (tagName vm) parseExpr sp (deref vm sp) structField")
    from fs have plain: "plainName (Name structField)" and rest: "wfFields rest"
      and restplain: "\<And>g. g \<in> set rest \<Longrightarrow> plainName (Name g)"
      and other: "\<And>g. g \<in> set rest \<Longrightarrow> Name g \<noteq> Name structField"
      by (auto simp: wfFields_def list_all_iff intro: rev_image_eqI)
    from own have own0: "notOwned (Name structField) (deref vm sp)"
      and ownrest: "\<And>g. g \<in> set rest \<Longrightarrow> notOwned (Name g) (deref vm sp)"
      by (auto simp: list_all_iff)
    note step = field_step [OF nf wfDesc_deref [OF wf] plain own0]
    let ?vm1 = "store vm sp d1"
    have wf1: "allWf ?vm1" by (rule allWf_store [OF wf step(1)])
    have own1: "\<And>g. g \<in> set rest \<Longrightarrow> notOwned (Name g) d1"
      using step(3) restplain other ownrest by blast
    show "allWf vm''"
    proof (cases y)
      case (Inl err)
      with a nf wf1 show ?thesis by auto
    next
      case (Inr field)
      from newField_inv(5) [OF nf wfDesc_deref [OF wf] notOwned_at [OF plain own0] Inr]
      have nm: "Name field = Name structField" by simp
      obtain t ptrDeep where dt: "derefType (Type structField) 0 = (t, ptrDeep)"
        by (cases "derefType (Type structField) 0")
      show ?thesis
      proof (cases "Kind t = Struct")
        case True
        show ?thesis
        proof (cases "registerStructLocked parseExpr ds fuel ?vm1 (Type field)")
          case None
          with a nf Inr dt True show ?thesis by simp
        next
          case (Some res)
          obtain vm2 r2 where res: "res = (vm2, r2)" by (cases res)
          from "3.IH"(1) [OF nf [symmetric] Inr refl dt [symmetric] refl True] wf1 ds Some res
          have wf2: "allWf vm2" by blast
          from registration_frame(1) Some res have "frame ?vm1 vm2" by blast
          from frame_deref [OF this, of sp] have d2: "deref vm2 sp = d1"
            by (simp add: store_def deref_def)
          show ?thesis
          proof (cases r2)
            case (Inl err)
            with a nf \<open>y = Inr field\<close> dt True Some res wf2 show ?thesis by simp
          next
            case (Inr sub)
            let ?d3 = "copySubFields (deref vm2 sp) field (deref vm2 sub) ptrDeep"
            let ?vm3 = "store vm2 sp ?d3"
            from step(2) nm have fresh: "\<And>k. Name field @ ''.'' @ k \<notin> set (selectorList d1)"
              by simp
            from plain nm have plain': "plainName (Name field)" by simp
            note fl = flatten_step [OF step(1) wfDesc_deref [OF wf2, of sub] plain' fresh,
                          where ptrDeep = ptrDeep]
            from fl(1) d2 have "wfDesc ?d3" by simp
            with wf2 have wf3: "allWf ?vm3" by (rule allWf_store)
            have own3: "list_all (\<lambda>f. notOwned (Name f) (deref ?vm3 sp)) rest"
              using fl(2) own1 other nm d2 by (auto simp: list_all_iff deref_store)
            from a nf \<open>y = Inr field\<close> dt True Some res Inr
            have "registerFields parseExpr ds fuel ?vm3 sp rest = Some (vm'', r')" by simp
            with "3.IH"(2) [OF nf [symmetric] \<open>y = Inr field\<close> refl dt [symmetric] refl True
                   Some [unfolded res] refl Inr] wf3 ds rest own3
            show ?thesis by blast
          qed
        qed
      next
        case False
        let ?d3 = "d1\<lparr>fields' :=
                     AList.update (Name field) (setGetter (Kind t) ptrDeep field) (fields' d1)\<rparr>"
        let ?vm3 = "store ?vm1 sp ?d3"
        have "wfDesc ?d3" by (rule wfDesc_fields_update [OF step(1)])
        with wf1 have wf3: "allWf ?vm3" by (rule allWf_store)
        have own3: "list_all (\<lambda>f. notOwned (Name f) (deref ?vm3 sp)) rest"
          using own1 by (auto simp: list_all_iff deref_store notOwned_def)
        from a nf Inr dt False
        have "registerFields parseExpr ds fuel ?vm3 sp rest = Some (vm'', r')" by simp
        with "3.IH"(3) [OF nf [symmetric] Inr refl dt [symmetric] refl False] wf3 ds rest own3
        show ?thesis by blast
      qed
    qed
  qed
qed

text \<open>Reading one group.\<close>

lemma scanPaired_plain:
  "left \<notin> set body \<Longrightarrow> right \<notin> set body \<Longrightarrow>
   scanPaired left right 0 acc (body @ right # rest) = Some (rev acc @ body, rest)"
  by (induction body arbitrary: acc) auto

lemma readPairedSymbol_group:
  "CHR ''{'' \<notin> set body \<Longrightarrow> CHR ''}'' \<notin> set body \<Longrightarrow>
   readPairedSymbol (''{'' @ body @ ''}'' @ rest) CHR ''{'' CHR ''}'' = Some (body, rest)"
  using scanPaired_plain [of "CHR ''{''" body "CHR ''}''" "[]" rest]
  by (simp add: readPairedSymbol_def)

lemma indexFrom_char:
  "c \<notin> set n \<Longrightarrow> indexFrom i [c] (n @ c # e) = int (i + length n)"
  by (induction n arbitrary: i) auto

lemma strIndex_colon:
  "CHR '':'' \<notin> set n \<Longrightarrow> strIndex (n @ '':'' @ e) '':'' = int (length n)"
  using indexFrom_char [of "CHR '':''" n 0 e] by (simp add: strIndex_def)

lemma TrimSpace_nonempty: "TrimSpace n \<noteq> [] \<Longrightarrow> n \<noteq> []"
  by (auto simp: TrimSpace_def trimLeftFunc.simps [of _ "[]"])

lemma group_duplicate:
  assumes "CHR ''{'' \<notin> set (n @ '':'' @ e)" and "CHR ''}'' \<notin> set (n @ '':'' @ e)"
    and "CHR '':'' \<notin> set n" and "TrimSpace n \<noteq> []"
    and "map_of (exprs d) (selectorFor (Name f) (TrimSpace n)) \<noteq> None"
  shows "parseExprsLoop parseExpr raw f d (''{'' @ n @ '':'' @ e @ ''}'' @ rest)
           = (d, Some (DuplicateExpressionName (selectorFor (Name f) (TrimSpace n))))"
proof -
  from readPairedSymbol_group [OF assms(1,2), of rest]
  have r: "readPairedSymbol (''{'' @ n @ '':'' @ e @ ''}'' @ rest) CHR ''{'' CHR ''}''
             = Some (n @ '':'' @ e, rest)" by simp
  from strIndex_colon [OF assms(3), of e] have i: "strIndex (n @ '':'' @ e) '':'' = int (length n)" .
  from TrimSpace_nonempty [OF assms(4)] have pos: "0 < int (length n)" by simp
  show ?thesis
    by (subst parseExprsLoop.simps)
       (use r i pos assms(4,5) in \<open>simp add: Let_def selectorFor_def\<close>)
qed

lemma group_accepted:
  assumes "CHR ''{'' \<notin> set (n @ '':'' @ e)" and "CHR ''}'' \<notin> set (n @ '':'' @ e)"
    and "CHR '':'' \<notin> set n" and "TrimSpace n \<noteq> []"
    and "map_of (exprs d) (selectorFor (Name f) (TrimSpace n)) = None"
    and "TrimSpace e \<noteq> []" and "parseExpr (TrimSpace e) = Inr x"
    and "trimLeftSpace rest \<noteq> []"
  shows "parseExprsLoop parseExpr raw f d (''{'' @ n @ '':'' @ e @ ''}'' @ rest)
           = parseExprsLoop parseExpr raw f
               (d\<lparr>exprs := AList.update (selectorFor (Name f) (TrimSpace n)) x (exprs d),
                  selectorList := selectorList d @ [selectorFor (Name f) (TrimSpace n)]\<rparr>)
               (trimLeftSpace rest)"
proof -
  from readPairedSymbol_group [OF assms(1,2), of rest]
  have r: "readPairedSymbol (''{'' @ n @ '':'' @ e @ ''}'' @ rest) CHR ''{'' CHR ''}''
             = Some (n @ '':'' @ e, rest)" by simp
  from strIndex_colon [OF assms(3), of e] have i: "strIndex (n @ '':'' @ e) '':'' = int (length n)" .
  from TrimSpace_nonempty [OF assms(4)] have pos: "0 < int (length n)" by simp
  show ?thesis
    by (subst parseExprsLoop.simps)
       (use r i pos assms(4-8) in \<open>simp add: Let_def selectorFor_def\<close>)
qed

lemma trimLeftSpace_spaces:
  "list_all isSpace ws \<Longrightarrow> \<not> isSpace c \<Longrightarrow> trimLeftSpace (ws @ c # cs) = c # cs"
  by (induction ws) (auto simp: trimLeftSpace_def)

text \<open>An error of a field is the error of the registration.\<close>

lemma registerFields_append:
  "registerFields parseExpr ds fuel vm sp (xs @ ys)
     = (case registerFields parseExpr ds fuel vm sp xs of
          None \<Rightarrow> None
        | Some (vm1, Some err) \<Rightarrow> Some (vm1, Some err)
        | Some (vm1, None) \<Rightarrow> registerFields parseExpr ds fuel vm1 sp ys)"
proof (induction xs arbitrary: vm)
  case Nil
  show ?case by simp
next
  case (Cons x xs)
  show ?case
    by (simp add: Cons.IH Let_def split: prod.splits sum.splits option.splits)
qed

lemma registerStructLocked_field_error:
  assumes fresh: "structJar vm nm = None" and fields: "fieldsOf ds nm = pre @ sf # post"
    and pre: "registerFields parseExpr ds fuel (store vm nm newStruct) nm pre = Some (vm1, None)"
    and err: "snd (parseExprs parseExpr
                \<lparr>Name = Name sf, Type = Type sf, Tag = Tag sf, Offset = Offset sf,
                  host = nm, valueGetter = None\<rparr>
                (deref vm1 nm) (Tag_Get (Tag sf) (tagName vm))) = Some e"
  shows "\<exists>vm'. registerStructLocked parseExpr ds (Suc fuel) vm (StructType nm) = Some (vm', Inl e)"
proof -
  from registration_frame(2) pre have "frameExcept nm (store vm nm newStruct) vm1" by blast
  then have tn: "tagName vm1 = tagName vm" by (simp add: frameExcept_def store_def)
  from err tn obtain d1 where "newField (tagName vm1) parseExpr nm (deref vm1 nm) sf = (d1, Inl e)"
    by (cases "parseExprs parseExpr
                \<lparr>Name = Name sf, Type = Type sf, Tag = Tag sf, Offset = Offset sf,
                  host = nm, valueGetter = None\<rparr>
                (deref vm1 nm) (Tag_Get (Tag sf) (tagName vm))")
       (auto simp: newField_def Let_def)
  then have "registerFields parseExpr ds fuel vm1 nm (sf # post) = Some (store vm1 nm d1, Some e)"
    by simp
  with pre have "registerFields parseExpr ds fuel (store vm nm newStruct) nm (pre @ sf # post)
                   = Some (store vm1 nm d1, Some e)"
    by (simp add: registerFields_append)
  with fresh fields show ?thesis
    by (simp add: registerStructLocked.simps)
qed

section \<open>Duplicate expression names\<close>

lemma hostVM_registered:
  "registerStructLocked keepSource hostDecls 2 (New ''tagexpr'') (StructType ''Host'')
     = Some (hostVM, Inr ''Host'')"
proof -
  have "map_option snd (registerStructLocked keepSource hostDecls 2 (New ''tagexpr'') (StructType ''Host''))
          = Some (Inr ''Host'')"
    by code_simp
  then show ?thesis by (auto simp: hostVM_def)
qed

lemma renderGroups_starts:
  "gs \<noteq> [] \<Longrightarrow> list_all isSpace ws \<Longrightarrow> trimLeftSpace (ws @ renderGroups gs) = renderGroups gs"
proof -
  assume "gs \<noteq> []" and ws: "list_all isSpace ws"
  then obtain n e ws' gs' where "gs = (n, e, ws') # gs'" by (cases gs) auto
  moreover have "\<not> isSpace CHR ''{''" by (simp add: isSpace_def)
  ultimately show ?thesis using trimLeftSpace_spaces [OF ws] by simp
qed

lemma renderGroups_nonempty: "gs \<noteq> [] \<Longrightarrow> renderGroups gs \<noteq> []"
  by (cases gs) auto

lemma parseExprsLoop_duplicate:
  "list_all (wfGroup parseExpr) gs \<Longrightarrow> gs \<noteq> [] \<Longrightarrow>
   \<not> distinct (map groupName gs)
     \<or> (\<exists>g \<in> set gs. map_of (exprs d) (selectorFor (Name f) (groupName g)) \<noteq> None) \<Longrightarrow>
   \<exists>d' g. parseExprsLoop parseExpr raw f d (renderGroups gs)
             = (d', Some (DuplicateExpressionName (selectorFor (Name f) (groupName g))))
          \<and> g \<in> set gs"
proof (induction gs arbitrary: d)
  case Nil
  then show ?case by simp
next
  case (Cons g gs)
  obtain n e ws where g: "g = (n, e, ws)" by (cases g)
  let ?sel = "selectorFor (Name f) (TrimSpace n)"
  from Cons.prems(1) g obtain x where
    b: "CHR ''{'' \<notin> set (n @ '':'' @ e)" "CHR ''}'' \<notin> set (n @ '':'' @ e)" "CHR '':'' \<notin> set n"
    and n: "TrimSpace n \<noteq> []" and e: "TrimSpace e \<noteq> []" "parseExpr (TrimSpace e) = Inr x"
    and ws: "list_all isSpace ws"
    by (cases "parseExpr (TrimSpace e)") (auto simp: wfGroup_def)
  show ?case
  proof (cases "map_of (exprs d) ?sel = None")
    case False
    from group_duplicate [where parseExpr = parseExpr and raw = raw and rest = "ws @ renderGroups gs",
           OF b n False] g
    show ?thesis by (auto simp: groupName_def)
  next
    case True
    let ?d1 = "d\<lparr>exprs := AList.update ?sel x (exprs d), selectorList := selectorList d @ [?sel]\<rparr>"
    have rest: "gs \<noteq> []"
    proof
      assume "gs = []"
      with Cons.prems(3) g True show False by (simp add: groupName_def)
    qed
    from renderGroups_starts [OF rest ws] renderGroups_nonempty [OF rest]
    have tl: "trimLeftSpace (ws @ renderGroups gs) = renderGroups gs"
      and ne: "trimLeftSpace (ws @ renderGroups gs) \<noteq> []" by simp_all
    from group_accepted [where parseExpr = parseExpr and raw = raw, OF b n True e ne] tl g
    have step: "parseExprsLoop parseExpr raw f d (renderGroups (g # gs))
                  = parseExprsLoop parseExpr raw f ?d1 (renderGroups gs)" by simp
    have "\<not> distinct (map groupName gs)
            \<or> (\<exists>g' \<in> set gs. map_of (exprs ?d1) (selectorFor (Name f) (groupName g')) \<noteq> None)"
    proof (cases "distinct (map groupName gs)")
      case False
      then show ?thesis by simp
    next
      case dist: True
      show ?thesis
      proof (cases "groupName g \<in> set (map groupName gs)")
        case True
        then obtain g' where "g' \<in> set gs" and "groupName g' = groupName g" by auto
        with g have "map_of (exprs ?d1) (selectorFor (Name f) (groupName g')) \<noteq> None"
          by (simp add: groupName_def AList.update_conv')
        with \<open>g' \<in> set gs\<close> show ?thesis by blast
      next
        case False
        with dist have "distinct (map groupName (g # gs))" by simp
        with Cons.prems(3)
        have "\<exists>g' \<in> set (g # gs). map_of (exprs d) (selectorFor (Name f) (groupName g')) \<noteq> None"
          by blast
        then obtain g' where g': "g' \<in> set (g # gs)"
          and old: "map_of (exprs d) (selectorFor (Name f) (groupName g')) \<noteq> None" by blast
        from old True g have "g' \<noteq> g" by (auto simp: groupName_def)
        with g' have "g' \<in> set gs" by simp
        moreover from old have "map_of (exprs ?d1) (selectorFor (Name f) (groupName g')) \<noteq> None"
          by (auto simp: AList.update_conv')
        ultimately show ?thesis by blast
      qed
    qed
    from Cons.IH [OF _ rest this] Cons.prems(1) step show ?thesis by auto
  qed
qed

lemma parseExprs_duplicates:
  assumes "TrimSpace tag = renderGroups gs" and "list_all (wfGroup parseExpr) gs"
    and "\<not> distinct (map groupName gs)"
  shows "\<exists>g \<in> set gs. snd (parseExprs parseExpr f d tag)
           = Some (DuplicateExpressionName (selectorFor (Name f) (groupName g)))"
proof -
  from assms(3) have ne: "gs \<noteq> []" by auto
  then obtain n e ws gs' where "gs = (n, e, ws) # gs'" by (cases gs) auto
  with assms(1) have "TrimSpace tag \<noteq> []" "hd (TrimSpace tag) = CHR ''{''" by simp_all
  with assms(1) have "parseExprs parseExpr f d tag
      = parseExprsLoop parseExpr tag f d (renderGroups gs)"
    by (simp add: parseExprs_def)
  with parseExprsLoop_duplicate [OF assms(2) ne, of d f tag] assms(3)
  show ?thesis by force
qed

text \<open>
  The first registration of a type. Let the annotation of a field \<open>sf\<close> of the type
  \<open>nm\<close>, which the registry does not hold, be a sequence of groups
  \<^verbatim>\<open>{name:source}\<close>, each of which \<^verbatim>\<open>parseExprs\<close> reads as one definition, and let two of
  the groups have the same name. Then the registration of the type, once the fields
  before \<open>sf\<close> are registered, fails with the duplicate-expression-name error for one of
  the names. And in a registry that a registration returns, the selectors of every
  descriptor are unique and are the keys of its expressions, for declarations whose field
  names are identifiers, different within a struct.
\<close>

lemma first_registration_rejects_duplicate:
  assumes fresh: "structJar vm nm = None" and fields: "fieldsOf ds nm = pre @ sf # post"
    and pre: "registerFields parseExpr ds fuel (store vm nm newStruct) nm pre = Some (vmP, None)"
    and tag: "TrimSpace (Tag_Get (Tag sf) (tagName vm)) = renderGroups gs"
    and groups: "list_all (wfGroup parseExpr) gs"
    and twice: "\<not> distinct (map groupName gs)"
  shows "(\<exists>vm'. \<exists>g \<in> set gs. registerStructLocked parseExpr ds (Suc fuel) vm (StructType nm)
                  = Some (vm', Inl (DuplicateExpressionName (selectorFor (Name sf) (groupName g)))))
         \<and> (wfDecls ds' \<and> allWf vmA
              \<and> registerStructLocked parseExpr' ds' fuel' vmA t = Some (vmB, r)
              \<and> structJar vmB k = Some d
              \<longrightarrow> distinct (selectorList d) \<and> set (selectorList d) = fst ` set (exprs d))"
proof
  let ?f = "\<lparr>Name = Name sf, Type = Type sf, Tag = Tag sf, Offset = Offset sf,
             host = nm, valueGetter = None\<rparr>"
  from parseExprs_duplicates [OF tag groups twice, of ?f "deref vmP nm"]
  obtain g where g: "g \<in> set gs"
    and "snd (parseExprs parseExpr ?f (deref vmP nm) (Tag_Get (Tag sf) (tagName vm)))
          = Some (DuplicateExpressionName (selectorFor (Name sf) (groupName g)))"
    by auto
  from registerStructLocked_field_error [OF fresh fields pre this(2)] g
  show "\<exists>vm'. \<exists>g \<in> set gs. registerStructLocked parseExpr ds (Suc fuel) vm (StructType nm)
                  = Some (vm', Inl (DuplicateExpressionName (selectorFor (Name sf) (groupName g))))"
    by blast
next
  show "wfDecls ds' \<and> allWf vmA
              \<and> registerStructLocked parseExpr' ds' fuel' vmA t = Some (vmB, r)
              \<and> structJar vmB k = Some d
              \<longrightarrow> distinct (selectorList d) \<and> set (selectorList d) = fst ` set (exprs d)"
  proof
    assume a: "wfDecls ds' \<and> allWf vmA
              \<and> registerStructLocked parseExpr' ds' fuel' vmA t = Some (vmB, r)
              \<and> structJar vmB k = Some d"
    with registration_wf(1) [of vmA ds' parseExpr' fuel' t vmB r] have "allWf vmB" by blast
    with a have "wfDesc d" by (auto simp: allWf_def)
    then show "distinct (selectorList d) \<and> set (selectorList d) = fst ` set (exprs d)"
      by (simp add: wfDesc_def)
  qed
qed

lemma first_registration_rejects_duplicate_example:
  "(\<exists>vm'. registerStructLocked keepSource dupDecls 1 (New ''tagexpr'') (StructType ''Dup'')
            = Some (vm', Inl (DuplicateExpressionName ''A@'')))
   \<and> registerStructLocked keepSource hostDecls 2 (New ''tagexpr'') (StructType ''Host'')
       = Some (hostVM, Inr ''Host'')
   \<and> structJar hostVM ''Host'' = Some (deref hostVM ''Host'')
   \<and> distinct (selectorList (deref hostVM ''Host''))
   \<and> set (selectorList (deref hostVM ''Host'')) = fst ` set (exprs (deref hostVM ''Host''))"
proof -
  let ?sf = "\<lparr>Name = ''A'', Type = TNum IntK, Tag = [(''tagexpr'', ''{@:$>0}{@:$<9}'')],
               Offset = 0\<rparr> :: StructField"
  let ?vm = "New ''tagexpr'' :: string VM"
  let ?gs = "[(''@'', ''$>0'', []), (''@'', ''$<9'', [])] :: (string \<times> string \<times> string) list"
  have fresh: "structJar ?vm ''Dup'' = None" by (simp add: New_def)
  have fields: "fieldsOf dupDecls ''Dup'' = [] @ ?sf # []" by (simp add: fieldsOf_def dupDecls_def)
  have pre: "registerFields keepSource dupDecls 0 (store ?vm ''Dup'' newStruct) ''Dup'' []
               = Some (store ?vm ''Dup'' newStruct, None)" by simp
  have tag: "TrimSpace (Tag_Get (Tag ?sf) (tagName ?vm)) = renderGroups ?gs"
    by code_simp
  have g: "list_all (wfGroup keepSource) ?gs"
    by code_simp
  have twice: "\<not> distinct (map groupName ?gs)" by (simp add: groupName_def)
  have wd: "wfDecls hostDecls"
    by (simp add: wfDecls_def hostDecls_def wfFields_def plainName_def special_def)
  have wv: "allWf ?vm" by (simp add: allWf_def New_def)
  from registerStructLocked_name [OF hostVM_registered]
  have jar: "structJar hostVM ''Host'' = Some (deref hostVM ''Host'')"
    by (auto simp: deref_def)
  note th = first_registration_rejects_duplicate [OF fresh fields pre tag g twice,
     where ds' = hostDecls and vmA = "New ''tagexpr'' :: string VM" and parseExpr' = keepSource
       and fuel' = 2 and t = "StructType ''Host''" and vmB = hostVM and r = "Inr ''Host''"
       and k = "''Host''" and d = "deref hostVM ''Host''"]
  have "\<forall>g \<in> set ?gs. selectorFor (Name ?sf) (groupName g) = ''A@''"
    by code_simp
  then have sel: "\<And>g. g \<in> set ?gs \<Longrightarrow> selectorFor (Name ?sf) (groupName g) = ''A@''"
    by blast
  from th have "\<exists>vm'. \<exists>g \<in> set ?gs. registerStructLocked keepSource dupDecls 1 ?vm (StructType ''Dup'')
                  = Some (vm', Inl (DuplicateExpressionName (selectorFor (Name ?sf) (groupName g))))"
    by simp
  with sel have first: "\<exists>vm'. registerStructLocked keepSource dupDecls 1 ?vm (StructType ''Dup'')
            = Some (vm', Inl (DuplicateExpressionName ''A@''))" by force
  from th wd wv hostVM_registered jar
  have "distinct (selectorList (deref hostVM ''Host''))
   \<and> set (selectorList (deref hostVM ''Host'')) = fst ` set (exprs (deref hostVM ''Host''))"
    by blast
  with first hostVM_registered jar show ?thesis by simp
qed

text \<open>
  C9. The claim: a field annotation that defines a name twice makes the registration of
  the type fail with the duplicate-expression-name error, and so the selectors of a
  descriptor are unique. The first registration of \<open>Dup\<close> fails with that error. But
  \<^verbatim>\<open>registerStructLocked\<close> has put the descriptor into \<^verbatim>\<open>structJar\<close> before it parses the
  fields and returns the error without taking it out: the next registration of the type
  finds the descriptor and returns it without error, and \<^verbatim>\<open>Run\<close> returns a handler. And the
  path of \<^verbatim>\<open>parseExprs\<close> for an annotation without braces does not test whether the
  selector is there, which the path for groups does: the two blank fields of \<open>Blank\<close>
  register, and the selector list holds \<open>_@\<close> twice.
\<close>

theorem duplicate_name_accepted_on_retry:
  "(case registerStructLocked keepSource dupDecls 1 (New ''tagexpr'') (StructType ''Dup'') of
      Some (vm, r) \<Rightarrow>
        r = Inl (DuplicateExpressionName ''A@'')
        \<and> map_option snd (registerStructLocked keepSource dupDecls 1 vm (StructType ''Dup''))
            = Some (Inr ''Dup'')
        \<and> outcome (Run keepSource dupDecls 1 (\<lambda>a. None) vm
                      (Some (PtrTo (StructType ''Dup''), VPtr 0x1000)))
            = Some (Inr (Inr (newTagExpr ''Dup'' 0x1000)))
    | None \<Rightarrow> False)
   \<and> (case registerStructLocked keepSource blankDecls 1 (New ''tagexpr'') (StructType ''Blank'') of
      Some (vm, Inr sp) \<Rightarrow> selectorList (deref vm sp) = [''_@'', ''_@'']
    | _ \<Rightarrow> False)"
  by code_simp

section \<open>Flattening\<close>

lemma keeps_refl: "keeps names d d"
  by (simp add: keeps_def)

lemma keeps_trans: "keeps A d d1 \<Longrightarrow> keeps B d1 d2 \<Longrightarrow> keeps (A \<union> B) d d2"
proof -
  assume a: "keeps A d d1" and b: "keeps B d1 d2"
  have "notOwned g d2" if "plainName g \<and> g \<notin> A \<union> B \<and> notOwned g d" for g
  proof -
    from that a have "notOwned g d1" by (simp add: keeps_def)
    with that b show ?thesis by (simp add: keeps_def)
  qed
  moreover have "map_of (exprs d2) key = map_of (exprs d) key
             \<and> map_of (fields' d2) key = map_of (fields' d) key" if "owner key \<notin> A \<union> B" for key
  proof -
    from that a have "map_of (exprs d1) key = map_of (exprs d) key
             \<and> map_of (fields' d1) key = map_of (fields' d) key" by (simp add: keeps_def)
    moreover from that b have "map_of (exprs d2) key = map_of (exprs d1) key
             \<and> map_of (fields' d2) key = map_of (fields' d1) key" by (simp add: keeps_def)
    ultimately show ?thesis by simp
  qed
  moreover from a b have "set (selectorList d) \<subseteq> set (selectorList d2)"
    by (simp add: keeps_def) blast
  ultimately show ?thesis unfolding keeps_def by blast
qed

lemma keeps_newField:
  assumes nf: "newField tn parseExpr sp d sf = (d1, r)" and wf: "wfDesc d"
    and plain: "plainName (Name sf)" and own: "notOwned (Name sf) d"
  shows "keeps {Name sf} d d1"
proof -
  note inv = newField_inv [OF nf wf notOwned_at [OF plain own]]
  note step = field_step [OF nf wf plain own]
  from inv(2) have sub: "set (selectorList d) \<subseteq> set (selectorList d1)" by auto
  have ex: "map_of (exprs d1) key = map_of (exprs d) key" if "owner key \<noteq> Name sf" for key
  proof (rule inv(3))
    show "take (Suc (length (Name sf))) key \<noteq> Name sf @ ''@''"
      using owner_prefixed [OF plain, of key] that by blast
  qed
  have fl: "map_of (fields' d1) key = map_of (fields' d) key" if "owner key \<noteq> Name sf" for key
  proof (rule inv(4))
    show "key \<noteq> Name sf" using owner_plain [OF plain] that by auto
  qed
  show ?thesis
    unfolding keeps_def using step(3) ex fl sub by auto
qed

lemma keeps_setGetter:
  assumes plain: "plainName nm"
  shows "keeps {nm} d (d\<lparr>fields' := AList.update nm v (fields' d)\<rparr>)"
  unfolding keeps_def using owner_plain [OF plain]
  by (auto simp: notOwned_def AList.update_conv')

lemma keeps_copySubFields:
  assumes plain: "plainName (Name field)"
  shows "keeps {Name field} d (copySubFields d field sub ptrDeep)"
proof -
  let ?p = "\<lambda>k. Name field @ ''.'' @ (k :: string)"
  have other: "key \<notin> ?p ` A" if "owner key \<noteq> Name field" for key and A :: "string set"
    using owner_dot [OF plain] that by auto
  have "map_of (exprs (copySubFields d field sub ptrDeep)) key = map_of (exprs d) key"
    if "owner key \<noteq> Name field" for key
    unfolding copySubFields_exprs by (rule fold_update_other) (rule other [OF that])
  moreover have "map_of (fields' (copySubFields d field sub ptrDeep)) key = map_of (fields' d) key"
    if "owner key \<noteq> Name field" for key
    unfolding copySubFields_fields by (rule fold_update_other) (rule other [OF that])
  moreover have "notOwned g (copySubFields d field sub ptrDeep)"
    if "g \<noteq> Name field" "notOwned g d" for g
    using that owner_dot [OF plain]
    by (auto simp: notOwned_def copySubFields_selectorList list_all_iff)
  ultimately show ?thesis
    unfolding keeps_def by (auto simp: copySubFields_selectorList)
qed

text \<open>What the flattening of one field puts into the descriptor.\<close>

lemma copySubFields_flattens:
  assumes "distinct (map fst (exprs sub))" and "distinct (map fst (fields' sub))"
  shows "map_of (exprs sub) k = Some e \<Longrightarrow>
           map_of (exprs (copySubFields d field sub ptrDeep)) (Name field @ ''.'' @ k) = Some e
           \<and> Name field @ ''.'' @ k \<in> set (selectorList (copySubFields d field sub ptrDeep))"
    and "map_of (fields' sub) k = Some v \<Longrightarrow>
           map_of (fields' (copySubFields d field sub ptrDeep)) (Name field @ ''.'' @ k)
             = Some (copySubField field ptrDeep v)"
proof -
  show "map_of (exprs (copySubFields d field sub ptrDeep)) (Name field @ ''.'' @ k) = Some e
           \<and> Name field @ ''.'' @ k \<in> set (selectorList (copySubFields d field sub ptrDeep))"
    if "map_of (exprs sub) k = Some e"
  proof
    from fold_update_hit [OF assms(1) inj_prefix that, of "Name field" id "exprs d"]
    show "map_of (exprs (copySubFields d field sub ptrDeep)) (Name field @ ''.'' @ k) = Some e"
      by (simp add: copySubFields_exprs)
    from that have "k \<in> fst ` set (exprs sub)" by (auto dest: map_of_SomeD intro: rev_image_eqI)
    then show "Name field @ ''.'' @ k \<in> set (selectorList (copySubFields d field sub ptrDeep))"
      by (auto simp: copySubFields_selectorList)
  qed
  show "map_of (fields' (copySubFields d field sub ptrDeep)) (Name field @ ''.'' @ k)
             = Some (copySubField field ptrDeep v)"
    if "map_of (fields' sub) k = Some v"
    using fold_update_hit [OF assms(2) inj_prefix that,
            of "Name field" "copySubField field ptrDeep" "fields' d"]
    by (simp add: copySubFields_fields)
qed

text \<open>The getter of a flattened field, through the pointers of the field it lies in.\<close>

lemma derefType_layers:
  "derefType T k = (S, k + Suc n) \<Longrightarrow>
   \<exists>T'. T = PtrTo T' \<and> derefType T' (Suc k) = (S, Suc k + n)"
  by (cases T) auto

lemma ElemN_follow:
  "follow h (Suc n) a = Some p \<Longrightarrow> derefType T k = (S, k + Suc n) \<Longrightarrow>
   bindP (ElemN h n (RV T (At a))) (\<lambda>nf. bindP (Pointer h nf) f) = f p"
proof (induction n arbitrary: T a k)
  case 0
  from derefType_layers [OF 0(2)] obtain T' where T: "T = PtrTo T'" by blast
  from 0(1) have "h a = Some (VPtr p)"
    by (auto split: if_splits option.splits val.splits)
  with T show ?case by (simp add: bindP_def load_def)
next
  case (Suc n)
  from derefType_layers [OF Suc(3)] obtain T' where T: "T = PtrTo T'"
    and d: "derefType T' (Suc k) = (S, Suc k + Suc n)" by blast
  from Suc(2) obtain q where q: "h a = Some (VPtr q)" and f: "follow h (Suc n) q = Some p"
    by (auto split: if_splits option.splits val.splits)
  from f have "q \<noteq> 0" by (auto split: if_splits)
  with T q have "ElemN h (Suc n) (RV T (At a)) = ElemN h n (RV T' (At q))"
    by (simp add: bindP_def load_def)
  with Suc.IH [OF f d] show ?case by simp
qed

lemma copySubField_parts:
  "Name (copySubField field n v) = Name v \<and> Type (copySubField field n v) = Type v
   \<and> Tag (copySubField field n v) = Tag v \<and> Offset (copySubField field n v) = Offset v
   \<and> host (copySubField field n v) = host v
   \<and> (valueGetter (copySubField field n v) = None \<longleftrightarrow> valueGetter v = None)"
  by (simp add: copySubField_def Let_def split: option.splits)

lemma copySubField_getter_at:
  assumes "valueGetter v = Some g" and "derefType (Type field) 0 = (S, n)"
  shows "\<exists>g'. valueGetter (copySubField field n v) = Some g'
           \<and> (\<forall>h base a. follow h n (base + Offset field) = Some a \<longrightarrow> g' h base = g h a)"
proof (cases n)
  case 0
  with assms show ?thesis by (simp add: copySubField_def)
next
  case (Suc m)
  let ?g' = "\<lambda>h p. bindP (ElemN h (Suc m) (NewAt (Type field) (p + Offset field)))
                      (\<lambda>nf. bindP (Pointer h nf) (\<lambda>a. g h a))"
  have "valueGetter (copySubField field n v) = Some ?g'"
    using assms Suc by (simp add: copySubField_def)
  moreover have "?g' h base = g h a"
    if f: "follow h (Suc m) (base + Offset field) = Some a" for h base a
  proof -
    from f have nz: "base + Offset field \<noteq> 0" by (auto split: if_splits)
    then have "ElemN h (Suc m) (NewAt (Type field) (base + Offset field))
                 = ElemN h m (RV (Type field) (At (base + Offset field)))"
      by (simp add: NewAt_def bindP_def)
    with ElemN_follow [OF f, of "Type field" 0 S "\<lambda>a. g h a"] assms(2) Suc
    show ?thesis by simp
  qed
  ultimately show ?thesis using Suc by blast
qed

lemma getStructType_derefType:
  "derefType ty n = (t, m) \<Longrightarrow> Kind t = Struct \<Longrightarrow> getStructType x ty = Inr t"
  by (induction ty n rule: derefType.induct) auto

text \<open>The registration of one field, and of a list of fields.\<close>

lemma registerFields_Cons:
  "registerFields parseExpr ds fuel vm sp (x # rest)
     = (case registerFields parseExpr ds fuel vm sp [x] of
          None \<Rightarrow> None
        | Some (vmC, Some err) \<Rightarrow> Some (vmC, Some err)
        | Some (vmC, None) \<Rightarrow> registerFields parseExpr ds fuel vmC sp rest)"
  using registerFields_append [of parseExpr ds fuel vm sp "[x]" rest] by simp

lemma field_registered:
  assumes r: "registerFields parseExpr ds fuel vm sp [sf] = Some (vmC, r)"
    and wf: "allWf vm" "wfDecls ds"
    and plain: "plainName (Name sf)" and own: "notOwned (Name sf) (deref vm sp)"
  shows "keeps {Name sf} (deref vm sp) (deref vmC sp)"
    and "r = None \<Longrightarrow> derefType (Type sf) 0 = (StructType sub, ptrDeep) \<Longrightarrow> sub \<noteq> sp \<Longrightarrow>
           structJar vmC sub \<noteq> None
           \<and> (\<forall>k e. map_of (exprs (deref vmC sub)) k = Some e \<longrightarrow>
                 map_of (exprs (deref vmC sp)) (Name sf @ ''.'' @ k) = Some e
                 \<and> Name sf @ ''.'' @ k \<in> set (selectorList (deref vmC sp)))
           \<and> (\<forall>k v. map_of (fields' (deref vmC sub)) k = Some v \<longrightarrow>
                 (\<exists>field. Offset field = Offset sf \<and> Type field = Type sf
                     \<and> map_of (fields' (deref vmC sp)) (Name sf @ ''.'' @ k)
                          = Some (copySubField field ptrDeep v)))"
proof -
  let ?d = "deref vm sp"
  obtain d1 y where nf: "newField (tagName vm) parseExpr sp ?d sf = (d1, y)"
    by (cases "newField (tagName vm) parseExpr sp ?d sf")
  note wfd = wfDesc_deref [OF wf(1), of sp]
  note k1 = keeps_newField [OF nf wfd plain own]
  note step = field_step [OF nf wfd plain own]
  let ?vm1 = "store vm sp d1"
  have wf1: "allWf ?vm1" by (rule allWf_store [OF wf(1) step(1)])
  obtain t n where dt: "derefType (Type sf) 0 = (t, n)" by (cases "derefType (Type sf) 0")
  have "keeps {Name sf} ?d (deref vmC sp)
        \<and> (r = None \<longrightarrow> derefType (Type sf) 0 = (StructType sub, ptrDeep) \<longrightarrow> sub \<noteq> sp \<longrightarrow>
           structJar vmC sub \<noteq> None
           \<and> (\<forall>k e. map_of (exprs (deref vmC sub)) k = Some e \<longrightarrow>
                 map_of (exprs (deref vmC sp)) (Name sf @ ''.'' @ k) = Some e
                 \<and> Name sf @ ''.'' @ k \<in> set (selectorList (deref vmC sp)))
           \<and> (\<forall>k v. map_of (fields' (deref vmC sub)) k = Some v \<longrightarrow>
                 (\<exists>field. Offset field = Offset sf \<and> Type field = Type sf
                     \<and> map_of (fields' (deref vmC sp)) (Name sf @ ''.'' @ k)
                          = Some (copySubField field ptrDeep v))))"
  proof (cases y)
    case (Inl err)
    with r nf have "vmC = ?vm1" and "r = Some err" by auto
    with k1 show ?thesis by (simp add: deref_store)
  next
    case (Inr field)
    from newField_inv(5) [OF nf wfd notOwned_at [OF plain own] Inr]
    have nm: "Name field = Name sf" and ty: "Type field = Type sf" and off: "Offset field = Offset sf"
      by simp_all
    show ?thesis
    proof (cases "Kind t = Struct")
      case False
      let ?d3 = "d1\<lparr>fields' :=
                     AList.update (Name field) (setGetter (Kind t) n field) (fields' d1)\<rparr>"
      from r nf Inr dt False have "vmC = store ?vm1 sp ?d3" by simp
      then have d3: "deref vmC sp = ?d3" by (simp add: deref_store)
      from keeps_trans [OF k1 keeps_setGetter [OF plain, of d1 "setGetter (Kind t) n field"]] nm d3
      have "keeps {Name sf} ?d (deref vmC sp)" by simp
      moreover from False dt have "derefType (Type sf) 0 \<noteq> (StructType sub, ptrDeep)" by auto
      ultimately show ?thesis by simp
    next
      case True
      from r nf Inr dt True obtain vmN r2 where
        res: "registerStructLocked parseExpr ds fuel ?vm1 (Type field) = Some (vmN, r2)"
        by (cases "registerStructLocked parseExpr ds fuel ?vm1 (Type field)") auto
      from registration_frame(1) res have fr: "frame ?vm1 vmN" by blast
      from frame_deref [OF fr, of sp] have dN: "deref vmN sp = d1"
        by (simp add: store_def deref_def)
      from registration_wf(1) wf1 wf(2) res have wfN: "allWf vmN" by blast
      show ?thesis
      proof (cases r2)
        case (Inl err)
        with r nf \<open>y = Inr field\<close> dt True res have "vmC = vmN" and "r = Some err" by auto
        with k1 dN show ?thesis by simp
      next
        case (Inr sub')
        let ?subd = "deref vmN sub'"
        let ?d3 = "copySubFields d1 field ?subd n"
        from r nf \<open>y = Inr field\<close> dt True res Inr dN have vmC: "vmC = store vmN sp ?d3" by simp
        then have d3: "deref vmC sp = ?d3" by (simp add: deref_store)
        from plain nm have plain': "plainName (Name field)" by simp
        from keeps_trans [OF k1 keeps_copySubFields [OF plain', of d1 ?subd n]] nm d3
        have keep: "keeps {Name sf} ?d (deref vmC sp)" by simp
        have "structJar vmC sub \<noteq> None
           \<and> (\<forall>k e. map_of (exprs (deref vmC sub)) k = Some e \<longrightarrow>
                 map_of (exprs (deref vmC sp)) (Name sf @ ''.'' @ k) = Some e
                 \<and> Name sf @ ''.'' @ k \<in> set (selectorList (deref vmC sp)))
           \<and> (\<forall>k v. map_of (fields' (deref vmC sub)) k = Some v \<longrightarrow>
                 (\<exists>field. Offset field = Offset sf \<and> Type field = Type sf
                     \<and> map_of (fields' (deref vmC sp)) (Name sf @ ''.'' @ k)
                          = Some (copySubField field ptrDeep v)))"
          if a: "derefType (Type sf) 0 = (StructType sub, ptrDeep)" and b: "sub \<noteq> sp"
        proof -
          from a dt have t: "t = StructType sub" and n: "n = ptrDeep" by simp_all
          from registerStructLocked_name [OF res [unfolded Inr]] obtain b' where
            gst: "getStructType (Type field) (Type field) = Inr b'" and sub': "sub' = TypeString b'"
            and jar: "structJar vmN sub' \<noteq> None" by blast
          from getStructType_derefType [OF dt True, of "Type sf"] gst ty t sub'
          have same: "sub' = sub" by auto
          from vmC b have jarC: "structJar vmC sub = structJar vmN sub" by (simp add: store_def)
          then have dsub: "deref vmC sub = deref vmN sub" by (simp add: deref_def)
          from wfDesc_deref [OF wfN, of sub] have
            dist: "distinct (map fst (exprs (deref vmN sub)))" "distinct (map fst (fields' (deref vmN sub)))"
            by (simp_all add: wfDesc_def)
          note fl = copySubFields_flattens [OF dist, where d = d1 and field = field and ptrDeep = n]
          from fl(1) have ex: "\<forall>k e. map_of (exprs (deref vmC sub)) k = Some e \<longrightarrow>
                 map_of (exprs (deref vmC sp)) (Name sf @ ''.'' @ k) = Some e
                 \<and> Name sf @ ''.'' @ k \<in> set (selectorList (deref vmC sp))"
            using d3 dsub same nm by auto
          from fl(2) have "\<forall>k v. map_of (fields' (deref vmC sub)) k = Some v \<longrightarrow>
                 (\<exists>field. Offset field = Offset sf \<and> Type field = Type sf
                     \<and> map_of (fields' (deref vmC sp)) (Name sf @ ''.'' @ k)
                          = Some (copySubField field ptrDeep v))"
            using d3 dsub same nm off ty n by auto
          with ex jar jarC same show ?thesis by simp
        qed
        with keep show ?thesis by blast
      qed
    qed
  qed
  then show "keeps {Name sf} (deref vm sp) (deref vmC sp)"
    and "r = None \<Longrightarrow> derefType (Type sf) 0 = (StructType sub, ptrDeep) \<Longrightarrow> sub \<noteq> sp \<Longrightarrow>
           structJar vmC sub \<noteq> None
           \<and> (\<forall>k e. map_of (exprs (deref vmC sub)) k = Some e \<longrightarrow>
                 map_of (exprs (deref vmC sp)) (Name sf @ ''.'' @ k) = Some e
                 \<and> Name sf @ ''.'' @ k \<in> set (selectorList (deref vmC sp)))
           \<and> (\<forall>k v. map_of (fields' (deref vmC sub)) k = Some v \<longrightarrow>
                 (\<exists>field. Offset field = Offset sf \<and> Type field = Type sf
                     \<and> map_of (fields' (deref vmC sp)) (Name sf @ ''.'' @ k)
                          = Some (copySubField field ptrDeep v)))"
    by blast+
qed

lemma keeps_mono: "A \<subseteq> B \<Longrightarrow> keeps A d d' \<Longrightarrow> keeps B d d'"
  unfolding keeps_def by blast

lemma fields_registered:
  "registerFields parseExpr ds fuel vm sp fs = Some (vm', r) \<Longrightarrow> allWf vm \<Longrightarrow> wfDecls ds \<Longrightarrow>
   wfFields fs \<Longrightarrow> list_all (\<lambda>f. notOwned (Name f) (deref vm sp)) fs \<Longrightarrow>
   keeps (Name ` set fs) (deref vm sp) (deref vm' sp)"
proof (induction fs arbitrary: vm)
  case Nil
  then show ?case by (simp add: keeps_refl)
next
  case (Cons x rest)
  from Cons.prems(4) have plain: "plainName (Name x)" and rest: "wfFields rest"
    and restplain: "\<And>g. g \<in> set rest \<Longrightarrow> plainName (Name g)"
    and other: "\<And>g. g \<in> set rest \<Longrightarrow> Name g \<noteq> Name x"
    by (auto simp: wfFields_def list_all_iff intro: rev_image_eqI)
  from Cons.prems(5) have own: "notOwned (Name x) (deref vm sp)"
    and ownrest: "\<And>g. g \<in> set rest \<Longrightarrow> notOwned (Name g) (deref vm sp)"
    by (auto simp: list_all_iff)
  from Cons.prems(1) obtain vmC r1 where
    one: "registerFields parseExpr ds fuel vm sp [x] = Some (vmC, r1)"
    by (cases "registerFields parseExpr ds fuel vm sp [x]")
       (auto simp del: registerFields.simps simp: registerFields_Cons [of _ _ _ _ _ x rest])
  note k1 = field_registered(1) [OF one Cons.prems(2,3) plain own]
  have "wfFields [x]" using plain by (simp add: wfFields_def)
  moreover have "list_all (\<lambda>f. notOwned (Name f) (deref vm sp)) [x]" using own by simp
  ultimately have wfC: "allWf vmC"
    using registration_wf(2) [of vm ds "[x]" sp parseExpr fuel vmC r1] Cons.prems(2,3) one by blast
  show ?case
  proof (cases r1)
    case (Some err)
    with Cons.prems(1) one have "vm' = vmC"
      by (simp del: registerFields.simps add: registerFields_Cons [of _ _ _ _ _ x rest])
    with k1 show ?thesis by (auto intro: keeps_mono [of "{Name x}"])
  next
    case None
    with Cons.prems(1) one have rf: "registerFields parseExpr ds fuel vmC sp rest = Some (vm', r)"
      by (simp del: registerFields.simps add: registerFields_Cons [of _ _ _ _ _ x rest])
    have "list_all (\<lambda>f. notOwned (Name f) (deref vmC sp)) rest"
      using k1 restplain other ownrest unfolding keeps_def list_all_iff by blast
    from Cons.IH [OF rf wfC Cons.prems(3) rest this]
    have "keeps (Name ` set rest) (deref vmC sp) (deref vm' sp)" .
    from keeps_trans [OF k1 this] show ?thesis by simp
  qed
qed

lemma flattened_in_fields:
  assumes rf: "registerFields parseExpr ds fuel vm sp fs = Some (vm', None)"
    and wf: "allWf vm" "wfDecls ds" "wfFields fs"
    and own: "list_all (\<lambda>f. notOwned (Name f) (deref vm sp)) fs"
    and sf: "sf \<in> set fs" and ty: "derefType (Type sf) 0 = (StructType sub, ptrDeep)"
    and other: "sub \<noteq> sp"
  shows "(\<forall>k e. map_of (exprs (deref vm' sub)) k = Some e \<longrightarrow>
            map_of (exprs (deref vm' sp)) (Name sf @ ''.'' @ k) = Some e
            \<and> Name sf @ ''.'' @ k \<in> set (selectorList (deref vm' sp)))
       \<and> (\<forall>k v. map_of (fields' (deref vm' sub)) k = Some v \<longrightarrow>
            (\<exists>field. Offset field = Offset sf \<and> Type field = Type sf
                \<and> map_of (fields' (deref vm' sp)) (Name sf @ ''.'' @ k)
                     = Some (copySubField field ptrDeep v)))"
proof -
  from sf obtain pre post where fs: "fs = pre @ sf # post" by (auto dest: split_list)
  from wf(3) fs have wpre: "wfFields pre" and wpost: "wfFields post"
    and plain: "plainName (Name sf)"
    and npre: "Name sf \<notin> Name ` set pre" and npost: "Name sf \<notin> Name ` set post"
    by (auto simp: wfFields_def)
  from own fs have opre: "list_all (\<lambda>f. notOwned (Name f) (deref vm sp)) pre"
    and osf: "notOwned (Name sf) (deref vm sp)"
    and opost: "\<And>g. g \<in> set post \<Longrightarrow> notOwned (Name g) (deref vm sp)"
    by (auto simp: list_all_iff)
  from rf fs obtain vmP where
    p: "registerFields parseExpr ds fuel vm sp pre = Some (vmP, None)"
    and q: "registerFields parseExpr ds fuel vmP sp (sf # post) = Some (vm', None)"
    by (auto simp del: registerFields.simps simp: registerFields_append [of _ _ _ _ _ pre]
             split: option.splits)
  from q obtain vmC where
    one: "registerFields parseExpr ds fuel vmP sp [sf] = Some (vmC, None)"
    and last: "registerFields parseExpr ds fuel vmC sp post = Some (vm', None)"
    by (auto simp del: registerFields.simps simp: registerFields_Cons [of _ _ _ _ _ sf post]
             split: option.splits)
  note kp = fields_registered [OF p wf(1,2) wpre opre]
  from registration_wf(2) [of vm ds pre sp parseExpr fuel vmP None] wf(1,2) wpre opre p
  have wfP: "allWf vmP" by blast
  from kp plain npre osf have ownP: "notOwned (Name sf) (deref vmP sp)"
    unfolding keeps_def by blast
  have postP: "\<And>g. g \<in> set post \<Longrightarrow> notOwned (Name g) (deref vmP sp)"
  proof -
    fix g assume g: "g \<in> set post"
    with wf(3) fs have "plainName (Name g)" and "Name g \<notin> Name ` set pre"
      by (auto simp: wfFields_def list_all_iff)
    with kp opost [OF g] show "notOwned (Name g) (deref vmP sp)" unfolding keeps_def by blast
  qed
  note k1 = field_registered(1) [OF one wfP wf(2) plain ownP]
  note fl = field_registered(2) [OF one wfP wf(2) plain ownP refl ty other]
  have "wfFields [sf]" using plain by (simp add: wfFields_def)
  with registration_wf(2) [of vmP ds "[sf]" sp parseExpr fuel vmC None] wfP wf(2) ownP one
  have wfC: "allWf vmC" by simp
  have postC: "list_all (\<lambda>f. notOwned (Name f) (deref vmC sp)) post"
    unfolding list_all_iff
  proof
    fix g assume g: "g \<in> set post"
    with wf(3) fs npost have "plainName (Name g)" and "Name g \<noteq> Name sf"
      by (auto simp: wfFields_def list_all_iff intro: rev_image_eqI)
    with k1 postP [OF g] show "notOwned (Name g) (deref vmC sp)" unfolding keeps_def by blast
  qed
  note kq = fields_registered [OF last wfC wf(2) wpost postC]
  from registration_frame(2) last have "frameExcept sp vmC vm'" by blast
  with fl other have "structJar vm' sub = structJar vmC sub" by (simp add: frameExcept_def)
  then have dsub: "deref vm' sub = deref vmC sub" by (simp add: deref_def)
  have own_key: "owner (Name sf @ ''.'' @ k) \<notin> Name ` set post" for k
    using owner_dot [OF plain, of k] npost by simp
  have exq: "map_of (exprs (deref vm' sp)) (Name sf @ ''.'' @ k)
               = map_of (exprs (deref vmC sp)) (Name sf @ ''.'' @ k)" for k
    using kq own_key [of k] unfolding keeps_def by blast
  have flq: "map_of (fields' (deref vm' sp)) (Name sf @ ''.'' @ k)
               = map_of (fields' (deref vmC sp)) (Name sf @ ''.'' @ k)" for k
    using kq own_key [of k] unfolding keeps_def by blast
  have slq: "set (selectorList (deref vmC sp)) \<subseteq> set (selectorList (deref vm' sp))"
    using kq unfolding keeps_def by blast
  from fl dsub exq flq slq show ?thesis by auto
qed

text \<open>
  C8, amended. Let the registry \<open>vm\<close> not hold the type \<open>hostT\<close>, let the
  registration of \<open>hostT\<close> return the registry \<open>vm'\<close> without error, and let \<open>sf\<close>
  be a field of \<open>hostT\<close> whose type is, behind \<open>ptrDeep\<close> pointers, a struct type
  \<open>sub\<close> other than \<open>hostT\<close>. Then in \<open>vm'\<close>, for every selector \<open>k\<close> of the
  descriptor of \<open>sub\<close>, the descriptor of \<open>hostT\<close> has the selector \<open>sf.k\<close> with the
  same compiled expression, in its selector list too. And for every field \<open>k\<close> of the
  descriptor of \<open>sub\<close> it has the field \<open>sf.k\<close>, a copy of the nested field, with a
  getter exactly when the nested field has one; the getter \<open>g'\<close> of the copy, at the
  base of a host, gives what the nested getter \<open>g\<close> gives at the address of the nested
  struct: \<open>g' base = g (base + Offset sf)\<close> when \<open>ptrDeep\<close> is zero, and
  \<open>g' base = g a\<close> when the chain of \<open>ptrDeep\<close> pointers at \<open>base + Offset sf\<close>
  leads to \<open>a\<close>. (The field names of the declarations are identifiers, different
  within a struct, and the descriptors of \<open>vm\<close> have unique keys, as those of an empty
  registry and of every registry made from it by such declarations have.)
\<close>

theorem nested_selectors_are_flattened:
  assumes reg: "registerStructLocked parseExpr ds fuel vm (StructType hostT) = Some (vm', Inr sp)"
    and fresh: "structJar vm hostT = None" and wf: "wfDecls ds" "allWf vm"
    and sf: "sf \<in> set (fieldsOf ds hostT)"
    and ty: "derefType (Type sf) 0 = (StructType sub, ptrDeep)" and other: "sub \<noteq> hostT"
  shows "sp = hostT
     \<and> (\<forall>k e. map_of (exprs (deref vm' sub)) k = Some e \<longrightarrow>
            map_of (exprs (deref vm' hostT)) (Name sf @ ''.'' @ k) = Some e
            \<and> Name sf @ ''.'' @ k \<in> set (selectorList (deref vm' hostT)))
     \<and> (\<forall>k v. map_of (fields' (deref vm' sub)) k = Some v \<longrightarrow>
            (\<exists>v'. map_of (fields' (deref vm' hostT)) (Name sf @ ''.'' @ k) = Some v'
               \<and> Name v' = Name v \<and> Type v' = Type v \<and> Offset v' = Offset v
               \<and> (valueGetter v' = None \<longleftrightarrow> valueGetter v = None)
               \<and> (\<forall>g. valueGetter v = Some g \<longrightarrow>
                    (\<exists>g'. valueGetter v' = Some g'
                       \<and> (\<forall>h base a. follow h ptrDeep (base + Offset sf) = Some a
                              \<longrightarrow> g' h base = g h a)
                       \<and> (ptrDeep = 0 \<longrightarrow> (\<forall>h base. g' h base = g h (base + Offset sf)))))))"
proof -
  from registerStructLocked_name [OF reg] have sp: "sp = hostT" by auto
  from reg fresh obtain n where fuel: "fuel = Suc n"
    by (cases fuel) (simp_all add: registerStructLocked.simps)
  let ?vmS = "store vm hostT newStruct"
  from reg fresh fuel have
    rf: "registerFields parseExpr ds n ?vmS hostT (fieldsOf ds hostT) = Some (vm', None)"
    by (auto simp: registerStructLocked.simps Let_def split: option.splits)
  have "allWf ?vmS" by (rule allWf_store [OF wf(2) wfDesc_newStruct])
  moreover have "list_all (\<lambda>f. notOwned (Name f) (deref ?vmS hostT)) (fieldsOf ds hostT)"
    by (simp add: deref_store notOwned_newStruct list_all_iff)
  ultimately have fl:
    "(\<forall>k e. map_of (exprs (deref vm' sub)) k = Some e \<longrightarrow>
            map_of (exprs (deref vm' hostT)) (Name sf @ ''.'' @ k) = Some e
            \<and> Name sf @ ''.'' @ k \<in> set (selectorList (deref vm' hostT)))
       \<and> (\<forall>k v. map_of (fields' (deref vm' sub)) k = Some v \<longrightarrow>
            (\<exists>field. Offset field = Offset sf \<and> Type field = Type sf
                \<and> map_of (fields' (deref vm' hostT)) (Name sf @ ''.'' @ k)
                     = Some (copySubField field ptrDeep v)))"
    using flattened_in_fields [OF rf _ wf(1) wfFields_fieldsOf [OF wf(1)] _ sf ty other] by blast
  have "\<exists>v'. map_of (fields' (deref vm' hostT)) (Name sf @ ''.'' @ k) = Some v'
               \<and> Name v' = Name v \<and> Type v' = Type v \<and> Offset v' = Offset v
               \<and> (valueGetter v' = None \<longleftrightarrow> valueGetter v = None)
               \<and> (\<forall>g. valueGetter v = Some g \<longrightarrow>
                    (\<exists>g'. valueGetter v' = Some g'
                       \<and> (\<forall>h base a. follow h ptrDeep (base + Offset sf) = Some a
                              \<longrightarrow> g' h base = g h a)
                       \<and> (ptrDeep = 0 \<longrightarrow> (\<forall>h base. g' h base = g h (base + Offset sf)))))"
    if a: "map_of (fields' (deref vm' sub)) k = Some v" for k v
  proof -
    from fl a obtain field where off: "Offset field = Offset sf" and tf: "Type field = Type sf"
      and m: "map_of (fields' (deref vm' hostT)) (Name sf @ ''.'' @ k)
                = Some (copySubField field ptrDeep v)" by blast
    let ?v' = "copySubField field ptrDeep v"
    note parts = copySubField_parts [of field ptrDeep v]
    have "\<exists>g'. valueGetter ?v' = Some g'
                 \<and> (\<forall>h base a. follow h ptrDeep (base + Offset sf) = Some a
                        \<longrightarrow> g' h base = g h a)
                 \<and> (ptrDeep = 0 \<longrightarrow> (\<forall>h base. g' h base = g h (base + Offset sf)))"
      if g: "valueGetter v = Some g" for g
    proof -
      from ty tf have "derefType (Type field) 0 = (StructType sub, ptrDeep)" by simp
      from copySubField_getter_at [OF g this] off obtain g' where
        g': "valueGetter ?v' = Some g'"
        and eq: "\<forall>h base a. follow h ptrDeep (base + Offset sf) = Some a \<longrightarrow> g' h base = g h a"
        by auto
      from eq have "ptrDeep = 0 \<longrightarrow> (\<forall>h base. g' h base = g h (base + Offset sf))" by simp
      with g' eq show ?thesis by blast
    qed
    then have G: "\<forall>g. valueGetter v = Some g \<longrightarrow>
                    (\<exists>g'. valueGetter ?v' = Some g'
                       \<and> (\<forall>h base a. follow h ptrDeep (base + Offset sf) = Some a
                              \<longrightarrow> g' h base = g h a)
                       \<and> (ptrDeep = 0 \<longrightarrow> (\<forall>h base. g' h base = g h (base + Offset sf))))"
      by blast
    show ?thesis
      by (rule exI [of _ ?v']) (use m parts G in simp)
  qed
  with sp fl show ?thesis by blast
qed

lemma flatVM_registered:
  "registerStructLocked keepSource flatDecls 2 (New ''tagexpr'') (StructType ''Host'')
     = Some (flatVM, Inr ''Host'')"
proof -
  have "map_option snd (registerStructLocked keepSource flatDecls 2 (New ''tagexpr'') (StructType ''Host''))
          = Some (Inr ''Host'')"
    by code_simp
  then show ?thesis by (auto simp: flatVM_def)
qed

text \<open>
  C8, as stated, fails for a host with a field of its own type: when \<open>Addr\<close> is
  flattened, the descriptor it is flattened from is the host's own, which holds no
  expression yet, so the finished descriptor exposes \<open>City@\<close> and no \<open>Addr.City@\<close>.
  It fails too for two types that contain each other (\<open>mutDecls\<close>): the registration
  of \<open>Address\<close> registers \<open>Host\<close> while the descriptor of \<open>Address\<close> is still
  empty, so in the registry it returns, and in the one a later registration of \<open>Host\<close>
  returns, \<open>Address\<close> exposes \<open>City@\<close> and \<open>Host\<close> no \<open>Addr.City@\<close>.
\<close>

theorem self_nested_selector_is_missing:
  "(case registerStructLocked keepSource selfDecls 1 (New ''tagexpr'') (StructType ''Address'') of
      Some (vm, Inr sp) \<Rightarrow>
        map_of (exprs (deref vm sp)) ''City@'' = Some ''len($)>0''
        \<and> map_of (exprs (deref vm sp)) ''Addr.City@'' = None
    | _ \<Rightarrow> False)
   \<and> (case registerStructLocked keepSource mutDecls 2 (New ''tagexpr'') (StructType ''Address'') of
      Some (vm, Inr sp) \<Rightarrow>
        (case registerStructLocked keepSource mutDecls 2 vm (StructType ''Host'') of
           Some (vmB, Inr spB) \<Rightarrow>
             spB = ''Host''
             \<and> map_of (exprs (deref vmB ''Address'')) ''City@'' = Some ''len($)>0''
             \<and> map_of (exprs (deref vmB ''Host'')) ''Addr.City@'' = None
         | _ \<Rightarrow> False)
    | _ \<Rightarrow> False)"
  by code_simp

theorem nested_selectors_are_flattened_witness:
  "registerStructLocked keepSource flatDecls 2 (New ''tagexpr'') (StructType ''Host'')
     = Some (flatVM, Inr ''Host'')
   \<and> map_of (exprs (deref flatVM ''Address'')) ''City@'' = Some ''len($)>0''
   \<and> map_of (exprs (deref flatVM ''Host'')) ''Addr.City@'' = Some ''len($)>0''
   \<and> ''Addr.City@'' \<in> set (selectorList (deref flatVM ''Host''))
   \<and> (\<exists>v g v' g'. map_of (fields' (deref flatVM ''Address'')) ''City'' = Some v
          \<and> valueGetter v = Some g
          \<and> map_of (fields' (deref flatVM ''Host'')) ''Addr.City'' = Some v'
          \<and> valueGetter v' = Some g'
          \<and> (\<forall>h base. g' h base = g h (base + 8)))
   \<and> registerStructLocked keepSource hostDecls 2 (New ''tagexpr'') (StructType ''Host'')
       = Some (hostVM, Inr ''Host'')
   \<and> follow addrHeap 1 (0x1000 + 8) = Some 0x2000
   \<and> (\<exists>v' g'. map_of (fields' (deref hostVM ''Host'')) ''Addr.City'' = Some v'
          \<and> valueGetter v' = Some g'
          \<and> g' addrHeap 0x1000 = Inr (Some (TString, VString ''Oslo'')))"
proof -
  let ?sf = "\<lparr>Name = ''Addr'', Type = StructType ''Address'', Tag = [], Offset = 8\<rparr> :: StructField"
  let ?pf = "\<lparr>Name = ''Addr'', Type = PtrTo (StructType ''Address''), Tag = [], Offset = 8\<rparr>
               :: StructField"
  have fresh: "structJar (New ''tagexpr'' :: string VM) ''Host'' = None" by (simp add: New_def)
  have wd: "wfDecls flatDecls"
    by (simp add: wfDecls_def flatDecls_def wfFields_def plainName_def special_def)
  have wdH: "wfDecls hostDecls"
    by (simp add: wfDecls_def hostDecls_def wfFields_def plainName_def special_def)
  have wv: "allWf (New ''tagexpr'' :: string VM)" by (simp add: allWf_def New_def)
  have sf: "?sf \<in> set (fieldsOf flatDecls ''Host'')" by (simp add: fieldsOf_def flatDecls_def)
  have pf: "?pf \<in> set (fieldsOf hostDecls ''Host'')" by (simp add: fieldsOf_def hostDecls_def)
  have ty: "derefType (Type ?sf) 0 = (StructType ''Address'', 0)" by simp
  have tyq: "derefType (Type ?pf) 0 = (StructType ''Address'', 1)" by simp
  have other: "''Address'' \<noteq> ''Host''" by simp
  note th = nested_selectors_are_flattened [OF flatVM_registered fresh wd wv sf ty other]
  note thp = nested_selectors_are_flattened [OF hostVM_registered fresh wdH wv pf tyq other]
  have city: "map_of (exprs (deref flatVM ''Address'')) ''City@'' = Some ''len($)>0''"
    by code_simp
  have "(case map_of (fields' (deref flatVM ''Address'')) ''City'' of
           None \<Rightarrow> False
         | Some v \<Rightarrow> (case valueGetter v of None \<Rightarrow> False | Some g \<Rightarrow> True))"
    by code_simp
  then obtain v g where v: "map_of (fields' (deref flatVM ''Address'')) ''City'' = Some v"
    and g: "valueGetter v = Some g"
    by (auto split: option.splits)
  from th city have e: "map_of (exprs (deref flatVM ''Host'')) ''Addr.City@'' = Some ''len($)>0''
      \<and> ''Addr.City@'' \<in> set (selectorList (deref flatVM ''Host''))"
    by fastforce
  from th v have "\<exists>v'. map_of (fields' (deref flatVM ''Host'')) ''Addr.City'' = Some v'
      \<and> (\<forall>g. valueGetter v = Some g \<longrightarrow>
            (\<exists>g'. valueGetter v' = Some g' \<and> (\<forall>h base. g' h base = g h (base + 8))))"
    by fastforce
  with g obtain v' g' where
    "map_of (fields' (deref flatVM ''Host'')) ''Addr.City'' = Some v'"
    "valueGetter v' = Some g'" "\<forall>h base. g' h base = g h (base + 8)"
    by blast
  with v g have flat: "\<exists>v g v' g'. map_of (fields' (deref flatVM ''Address'')) ''City'' = Some v
          \<and> valueGetter v = Some g
          \<and> map_of (fields' (deref flatVM ''Host'')) ''Addr.City'' = Some v'
          \<and> valueGetter v' = Some g'
          \<and> (\<forall>h base. g' h base = g h (base + 8))" by blast
  have fol: "follow addrHeap 1 (0x1000 + 8) = Some 0x2000" by code_simp
  have "(case map_of (fields' (deref hostVM ''Address'')) ''City'' of
           None \<Rightarrow> False
         | Some v \<Rightarrow> (case valueGetter v of
                        None \<Rightarrow> False
                      | Some g \<Rightarrow> g addrHeap 0x2000 = Inr (Some (TString, VString ''Oslo''))))"
    by code_simp
  then obtain vp gp where vp: "map_of (fields' (deref hostVM ''Address'')) ''City'' = Some vp"
    and gp: "valueGetter vp = Some gp"
    and oslo: "gp addrHeap 0x2000 = Inr (Some (TString, VString ''Oslo''))"
    by (auto split: option.splits)
  from thp vp have "\<exists>v'. map_of (fields' (deref hostVM ''Host'')) ''Addr.City'' = Some v'
      \<and> (\<forall>g. valueGetter vp = Some g \<longrightarrow>
            (\<exists>g'. valueGetter v' = Some g'
               \<and> (\<forall>h base a. follow h 1 (base + 8) = Some a \<longrightarrow> g' h base = g h a)))"
    by fastforce
  with gp obtain vq gq where
    vq: "map_of (fields' (deref hostVM ''Host'')) ''Addr.City'' = Some vq"
    and gq: "valueGetter vq = Some gq"
    and eq: "\<forall>h base a. follow h 1 (base + 8) = Some a \<longrightarrow> gq h base = gp h a"
    by blast
  from eq fol oslo have "gq addrHeap 0x1000 = Inr (Some (TString, VString ''Oslo''))" by simp
  with vq gq have deep: "\<exists>v' g'. map_of (fields' (deref hostVM ''Host'')) ''Addr.City'' = Some v'
          \<and> valueGetter v' = Some g'
          \<and> g' addrHeap 0x1000 = Inr (Some (TString, VString ''Oslo''))" by blast
  from flatVM_registered city e flat hostVM_registered fol deep show ?thesis by simp
qed

end
